theory Spec2Isabelle
  imports Main "HOL-Library.Word" "HOL-Library.Sublist"
begin

unbundle bit_operations_syntax

section \<open>The OpenOCD programmer of the Flipper Zero firmware scripts\<close>

text \<open>
  This theory embeds \<^verbatim>\<open>scripts/flipper/utils/programmer_openocd.py\<close>: the class
  \<^verbatim>\<open>OpenOCDProgrammer\<close> with its operations \<^verbatim>\<open>reset\<close>, \<^verbatim>\<open>flash\<close>,
  \<^verbatim>\<open>_ob_print_diff_table\<close>, \<^verbatim>\<open>option_bytes_validate\<close>, \<^verbatim>\<open>_unpack_u32\<close>,
  \<^verbatim>\<open>option_bytes_set\<close> and \<^verbatim>\<open>otp_write\<close>. The constructor only builds the
  configuration of the \<^verbatim>\<open>OpenOCD\<close> session and is left out.

  Python integers are unbounded and are modelled as \<open>int\<close>; the operators \<^verbatim>\<open>&\<close>,
  \<^verbatim>\<open>|\<close>, \<^verbatim>\<open>^\<close> and \<^verbatim>\<open>~\<close> are \<open>AND\<close>, \<open>OR\<close>, \<open>XOR\<close> and \<open>NOT\<close> on \<open>int\<close>
  (two's complement of unbounded width, as in Python). A \<^verbatim>\<open>bytes\<close> object is a list of
  8-bit words. Every exception of the source is a value of type \<open>error\<close>.
\<close>

subsection \<open>Data\<close>

type_synonym byte = "8 word"
type_synonym bytes = "byte list"

text \<open>
  \<open>Exception\<close> is Python's \<^verbatim>\<open>Exception(msg)\<close> raised by the programmer itself,
  \<open>OverflowError\<close> is raised by \<^verbatim>\<open>int.to_bytes\<close>, \<open>IndexError\<close> by indexing a
  \<^verbatim>\<open>bytes\<close> object out of range, and \<open>External\<close> stands for whatever a collaborator
  outside this file raises (the probe, the register map, the option byte parser).
\<close>

datatype error = Exception string | OverflowError | IndexError | External string

text \<open>\<^verbatim>\<open>Programmer.RunMode\<close>; Python does not check the argument's type, so any
  other value can reach \<^verbatim>\<open>reset\<close>.\<close>

datatype run_mode = RunMode_Run | RunMode_Stop | RunMode_Other

text \<open>\<^verbatim>\<open>STM32WB55.RunMode\<close>, as far as this file uses it.\<close>

datatype stm32_run_mode = Init | Run

datatype level = Info | Error

text \<open>
  Everything the programmer does to the outside world, in the order it happens: the calls
  on the \<^verbatim>\<open>OpenOCD\<close> session (\<open>Start\<close>, \<open>Stop\<close>, \<open>SendTcl cmd response\<close>,
  \<open>Read32 addr value\<close>, \<open>Write32 addr value\<close>), the calls on \<^verbatim>\<open>STM32WB55\<close>
  (each one command on the device) and the lines given to the logger.
\<close>

datatype event =
    Start
  | Stop
  | SendTcl string string
  | Read32 int int
  | Write32 int int
  | Reset stm32_run_mode
  | ClearFlashErrors
  | FlashUnlock
  | OptionBytesUnlock
  | OptionBytesApply
  | OptionBytesLoad
  | WriteFlash int int int
  | Log level string

text \<open>The value of \<^verbatim>\<open>OptionBytesData(file_path).gen_values().export()\<close>.\<close>

record ob_values =
  reference :: bytes
  compare_mask :: bytes
  write_mask :: bytes

text \<open>
  The collaborators that are not part of this file are parameters of the model.
  \<^item> \<open>path_exists\<close> is \<^verbatim>\<open>os.path.exists\<close>.
  \<^item> \<open>load_option_bytes\<close> is \<^verbatim>\<open>OptionBytesData(file_path).gen_values().export()\<close>:
    the three buffers, or the exception of a missing or malformed file.
  \<^item> \<open>read_32_value\<close> and \<open>send_tcl_response\<close> give what the probe answers; the answer
    may depend on everything that happened before (the events so far).
  \<^item> \<open>raises\<close> tells whether an interaction with the probe or the device fails, and
    with which exception, again depending on the events so far.
  \<^item> \<open>OPTION_BYTE_BASE\<close> and \<open>option_bytes_id_to_address\<close> are the register map of
    \<^verbatim>\<open>STM32WB55\<close>; the latter may raise for an index that has no register.
\<close>

record env =
  path_exists :: "string \<Rightarrow> bool"
  load_option_bytes :: "string \<Rightarrow> error + ob_values"
  read_32_value :: "event list \<Rightarrow> int \<Rightarrow> int"
  send_tcl_response :: "event list \<Rightarrow> string \<Rightarrow> string"
  raises :: "event list \<Rightarrow> event \<Rightarrow> error option"
  OPTION_BYTE_BASE :: int
  option_bytes_id_to_address :: "nat \<Rightarrow> error + int"

subsection \<open>Effects\<close>

text \<open>
  A statement of the source is a function from the events so far to the events it adds
  and its outcome: \<open>Inl\<close> an exception, which ends the operation at once with the events
  emitted until then, or \<open>Inr\<close> the value.
\<close>

type_synonym 'a io = "event list \<Rightarrow> event list \<times> (error + 'a)"

definition io_return :: "'a \<Rightarrow> 'a io" where
  "io_return x h = ([], Inr x)"

definition io_raise :: "error \<Rightarrow> 'a io" where
  "io_raise e h = ([], Inl e)"

definition io_bind :: "'a io \<Rightarrow> ('a \<Rightarrow> 'b io) \<Rightarrow> 'b io" where
  "io_bind m f h =
     (case m h of
        (es, Inl e) \<Rightarrow> (es, Inl e)
      | (es, Inr x) \<Rightarrow> (case f x (h @ es) of (es', r) \<Rightarrow> (es @ es', r)))"

definition io_then :: "unit io \<Rightarrow> 'b io \<Rightarrow> 'b io" where
  "io_then m k = io_bind m (\<lambda>_. k)"

definition io_lift :: "error + 'a \<Rightarrow> 'a io" where
  "io_lift r h = ([], r)"

text \<open>One interaction with the probe or the device: it raises, or it happens.\<close>

definition interact :: "env \<Rightarrow> event \<Rightarrow> unit io" where
  "interact E e h =
     (case raises E h e of Some err \<Rightarrow> ([], Inl err) | None \<Rightarrow> ([e], Inr ()))"

text \<open>\<^verbatim>\<open>self.logger.info\<close> and \<^verbatim>\<open>self.logger.error\<close>: logging does not raise.\<close>

definition logger :: "level \<Rightarrow> string \<Rightarrow> unit io" where
  "logger l s h = ([Log l s], Inr ())"

text \<open>A \<^verbatim>\<open>for\<close> loop whose body returns nothing.\<close>

fun io_iter :: "('a \<Rightarrow> unit io) \<Rightarrow> 'a list \<Rightarrow> unit io" where
  "io_iter f [] = io_return ()"
| "io_iter f (x # xs) = io_then (f x) (io_iter f xs)"

definition openocd_start :: "env \<Rightarrow> unit io" where
  "openocd_start E = interact E Start"

definition openocd_stop :: "env \<Rightarrow> unit io" where
  "openocd_stop E = interact E Stop"

definition openocd_send_tcl :: "env \<Rightarrow> string \<Rightarrow> string io" where
  "openocd_send_tcl E cmd h =
     (let resp = send_tcl_response E h cmd
      in io_bind (interact E (SendTcl cmd resp)) (\<lambda>_. io_return resp) h)"

definition openocd_read_32 :: "env \<Rightarrow> int \<Rightarrow> int io" where
  "openocd_read_32 E addr h =
     (let v = read_32_value E h addr
      in io_bind (interact E (Read32 addr v)) (\<lambda>_. io_return v) h)"

definition openocd_write_32 :: "env \<Rightarrow> int \<Rightarrow> int \<Rightarrow> unit io" where
  "openocd_write_32 E addr v = interact E (Write32 addr v)"

definition stm32_reset :: "env \<Rightarrow> stm32_run_mode \<Rightarrow> unit io" where
  "stm32_reset E m = interact E (Reset m)"

definition stm32_clear_flash_errors :: "env \<Rightarrow> unit io" where
  "stm32_clear_flash_errors E = interact E ClearFlashErrors"

definition stm32_flash_unlock :: "env \<Rightarrow> unit io" where
  "stm32_flash_unlock E = interact E FlashUnlock"

definition stm32_option_bytes_unlock :: "env \<Rightarrow> unit io" where
  "stm32_option_bytes_unlock E = interact E OptionBytesUnlock"

definition stm32_option_bytes_apply :: "env \<Rightarrow> unit io" where
  "stm32_option_bytes_apply E = interact E OptionBytesApply"

definition stm32_option_bytes_load :: "env \<Rightarrow> unit io" where
  "stm32_option_bytes_load E = interact E OptionBytesLoad"

definition stm32_write_flash :: "env \<Rightarrow> int \<Rightarrow> int \<Rightarrow> int \<Rightarrow> unit io" where
  "stm32_write_flash E addr w1 w2 = interact E (WriteFlash addr w1 w2)"

subsection \<open>Python's built-in operations\<close>

text \<open>Slicing \<^verbatim>\<open>xs[a:b]\<close> with \<open>0 \<le> a \<le> b\<close>: it never raises and stops at the end.\<close>

definition py_slice :: "nat \<Rightarrow> nat \<Rightarrow> 'a list \<Rightarrow> 'a list" where
  "py_slice a b xs = take (b - a) (drop a xs)"

text \<open>\<^verbatim>\<open>range(0, n, k)\<close> for a positive step.\<close>

definition range_step :: "nat \<Rightarrow> nat \<Rightarrow> nat list" where
  "range_step n k = map (\<lambda>q. q * k) [0..<(n + k - 1) div k]"

text \<open>\<^verbatim>\<open>int.from_bytes(bs, "little")\<close>.\<close>

fun from_bytes_little :: "bytes \<Rightarrow> int" where
  "from_bytes_little [] = 0"
| "from_bytes_little (b # bs) = uint b + 256 * from_bytes_little bs"

text \<open>\<^verbatim>\<open>v.to_bytes(n, "little")\<close>: an \<^verbatim>\<open>OverflowError\<close> for a negative value and for
  one that does not fit.\<close>

definition to_bytes_little :: "nat \<Rightarrow> int \<Rightarrow> error + bytes" where
  "to_bytes_little n v =
     (if v < 0 \<or> 2 ^ (8 * n) \<le> v then Inl OverflowError
      else Inr (map (\<lambda>k. word_of_int (v div 256 ^ k)) [0..<n]))"

text \<open>Indexing \<^verbatim>\<open>bs[i]\<close> of a \<^verbatim>\<open>bytes\<close> object with \<open>i \<ge> 0\<close>.\<close>

definition bytes_index :: "bytes \<Rightarrow> nat \<Rightarrow> error + byte" where
  "bytes_index bs i = (if i < length bs then Inr (bs ! i) else Inl IndexError)"

definition lower_digits :: string where
  "lower_digits = ''0123456789abcdef''"

definition upper_digits :: string where
  "upper_digits = ''0123456789ABCDEF''"

text \<open>\<^verbatim>\<open>bytes.hex()\<close>: two lower-case digits for each byte.\<close>

definition byte_hex :: "byte \<Rightarrow> string" where
  "byte_hex b = [lower_digits ! (unat b div 16), lower_digits ! (unat b mod 16)]"

definition bytes_hex :: "bytes \<Rightarrow> string" where
  "bytes_hex bs = concat (map byte_hex bs)"

text \<open>The digits of a non-negative integer in base sixteen and in base ten.\<close>

function hex_digits :: "string \<Rightarrow> int \<Rightarrow> string" where
  "hex_digits ds n =
     (if n < 16 then [ds ! nat n] else hex_digits ds (n div 16) @ [ds ! nat (n mod 16)])"
  by pat_completeness auto
termination
  by (relation "measure (\<lambda>(ds, n). nat n)") auto

declare hex_digits.simps [simp del]

function dec_digits :: "int \<Rightarrow> string" where
  "dec_digits n =
     (if n < 10 then [lower_digits ! nat n]
      else dec_digits (n div 10) @ [lower_digits ! nat (n mod 10)])"
  by pat_completeness auto
termination
  by (relation "measure nat") auto

declare dec_digits.simps [simp del]

definition zfill :: "nat \<Rightarrow> string \<Rightarrow> string" where
  "zfill w s = replicate (w - length s) (CHR ''0'') @ s"

text \<open>The format specifications \<^verbatim>\<open>{v:08X}\<close> and \<^verbatim>\<open>{v:08x}\<close> of an integer: the sign
  counts in the width of eight.\<close>

definition format_08 :: "string \<Rightarrow> int \<Rightarrow> string" where
  "format_08 ds v =
     (if v < 0 then CHR ''-'' # zfill 7 (hex_digits ds (- v))
      else zfill 8 (hex_digits ds v))"

text \<open>\<^verbatim>\<open>{v}\<close> of an integer, that is \<^verbatim>\<open>str(v)\<close>.\<close>

definition str_int :: "int \<Rightarrow> string" where
  "str_int v = (if v < 0 then CHR ''-'' # dec_digits (- v) else dec_digits v)"

text \<open>\<^verbatim>\<open>{s: <20}\<close>: left-aligned in a field of twenty, filled with spaces.\<close>

definition ljust20 :: "string \<Rightarrow> string" where
  "ljust20 s = s @ replicate (20 - length s) (CHR '' '')"

text \<open>\<^verbatim>\<open>str.strip()\<close>. A character of the model is a code point below 256; among these
  Python's white space is 9 to 13, 28 to 32, \<open>0x85\<close> (next line) and \<open>0xA0\<close> (no-break
  space).\<close>

definition is_space :: "char \<Rightarrow> bool" where
  "is_space c =
     (let n = of_char c :: nat
      in (9 \<le> n \<and> n \<le> 13) \<or> (28 \<le> n \<and> n \<le> 32) \<or> n = 0x85 \<or> n = 0xA0)"

definition strip :: "string \<Rightarrow> string" where
  "strip s = rev (dropWhile is_space (rev (dropWhile is_space s)))"

subsection \<open>reset and flash\<close>

definition reset :: "env \<Rightarrow> run_mode \<Rightarrow> bool io" where
  "reset E mode =
     io_then
       (case mode of
          RunMode_Run \<Rightarrow> stm32_reset E Run
        | RunMode_Stop \<Rightarrow> stm32_reset E Init
        | RunMode_Other \<Rightarrow> io_raise (Exception ''Unknown mode''))
       (io_return True)"

definition flash :: "env \<Rightarrow> int \<Rightarrow> string \<Rightarrow> bool \<Rightarrow> bool io" where
  "flash E address file_path verify =
     (if \<not> path_exists E file_path
      then io_raise (Exception (''File '' @ file_path @ '' not found''))
      else
        io_then (openocd_start E)
       (io_bind (openocd_send_tcl E ''init'') (\<lambda>_.
        io_bind (openocd_send_tcl E
                   (''program '' @ file_path @ '' 0x'' @ format_08 lower_digits address
                      @ (if verify then '' verify'' else []) @ '' reset exit'')) (\<lambda>_.
        io_then (openocd_stop E)
       (io_return True)))))"

subsection \<open>The diff table\<close>

text \<open>The inner loop of \<^verbatim>\<open>_ob_print_diff_table\<close> over the positions \<open>j\<close> of the hex
  string of the reference chunk, with the two strings it builds.\<close>

fun diff_loop :: "string \<Rightarrow> string \<Rightarrow> nat list \<Rightarrow> string \<times> string \<Rightarrow> string \<times> string" where
  "diff_loop ref_hex read_hex [] (diff_str1, diff_str2) = (diff_str1, diff_str2)"
| "diff_loop ref_hex read_hex (j # js) (diff_str1, diff_str2) =
     (let byte_str_1 = py_slice j (j + 2) ref_hex;
          byte_str_2 = py_slice j (j + 2) read_hex
      in if byte_str_1 = byte_str_2
         then diff_loop ref_hex read_hex js (diff_str1 @ ''__'', diff_str2 @ ''__'')
         else diff_loop ref_hex read_hex js (diff_str1 @ byte_str_1, diff_str2 @ byte_str_2))"

definition diff_strs :: "bytes \<Rightarrow> bytes \<Rightarrow> string \<times> string" where
  "diff_strs ref read =
     diff_loop (bytes_hex ref) (bytes_hex read)
       (range_step (length (bytes_hex ref)) 2) ([], [])"

definition diff_header :: string where
  "diff_header =
     ljust20 ''Reference'' @ '' '' @ ljust20 ''Device'' @ '' ''
       @ ljust20 ''Diff Reference'' @ '' '' @ ljust20 ''Diff Device''"

text \<open>The line printed for the chunks that start at byte \<open>i\<close>.\<close>

definition diff_line :: "bytes \<Rightarrow> bytes \<Rightarrow> nat \<Rightarrow> string" where
  "diff_line ob_reference ob_read i =
     (let ref = py_slice i (i + 8) ob_reference;
          read = py_slice i (i + 8) ob_read;
          (diff_str1, diff_str2) = diff_strs ref read
      in ljust20 (bytes_hex ref) @ '' '' @ ljust20 (bytes_hex read) @ '' ''
           @ ljust20 diff_str1 @ '' '' @ ljust20 diff_str2)"

definition ob_print_diff_table :: "bytes \<Rightarrow> bytes \<Rightarrow> (string \<Rightarrow> unit io) \<Rightarrow> unit io" where
  "ob_print_diff_table ob_reference ob_read print_fn =
     io_then (print_fn diff_header)
       (io_iter (\<lambda>i. print_fn (diff_line ob_reference ob_read i))
          (range_step (length ob_reference) 8))"

subsection \<open>option\_bytes\_validate\<close>

text \<open>The loop that reads the option bytes, one 32-bit word for each \<open>i\<close>, and appends
  the four bytes of each to \<open>ob_read\<close>. The number of words, \<^verbatim>\<open>int(ob_length / 4)\<close>,
  is the quotient rounded down.\<close>

fun read_option_bytes :: "env \<Rightarrow> nat list \<Rightarrow> bytes \<Rightarrow> bytes io" where
  "read_option_bytes E [] ob_read = io_return ob_read"
| "read_option_bytes E (i # is) ob_read =
     (let addr = OPTION_BYTE_BASE E + int i * 4
      in io_bind (openocd_read_32 E addr) (\<lambda>v.
         io_bind (io_lift (to_bytes_little 4 v)) (\<lambda>bs.
         read_option_bytes E is (ob_read @ bs))))"

text \<open>The loop that masks the bytes read with the compare mask, byte by byte.\<close>

fun mask_option_bytes :: "bytes \<Rightarrow> bytes \<Rightarrow> nat list \<Rightarrow> bytes \<Rightarrow> bytes io" where
  "mask_option_bytes ob_read ob_compare_mask [] ob_compare = io_return ob_compare"
| "mask_option_bytes ob_read ob_compare_mask (i # is) ob_compare =
     io_bind (io_lift (bytes_index ob_read i)) (\<lambda>r.
     io_bind (io_lift (bytes_index ob_compare_mask i)) (\<lambda>m.
     mask_option_bytes ob_read ob_compare_mask is (ob_compare @ [r AND m])))"

definition option_bytes_validate :: "env \<Rightarrow> string \<Rightarrow> bool io" where
  "option_bytes_validate E file_path =
     io_then (openocd_start E)
    (io_then (stm32_reset E Init)
    (io_bind (io_lift (load_option_bytes E file_path)) (\<lambda>ob_values.
       let ob_reference = reference ob_values;
           ob_compare_mask = compare_mask ob_values;
           ob_length = length ob_reference;
           ob_words = ob_length div 4
       in
     io_bind (read_option_bytes E [0..<ob_words] []) (\<lambda>ob_read.
     io_bind (mask_option_bytes ob_read ob_compare_mask [0..<ob_length] []) (\<lambda>ob_compare.
     io_bind
       (if ob_reference = ob_compare
        then io_then (logger Info ''Option Bytes are valid'') (io_return False)
        else io_then (logger Error ''Option Bytes are invalid'')
            (io_then (ob_print_diff_table ob_reference ob_compare (logger Error))
            (io_return True))) (\<lambda>return_code.
     io_then (stm32_reset E Run)
    (io_then (openocd_stop E)
    (io_return return_code))))))))"

subsection \<open>option\_bytes\_set\<close>

definition unpack_u32 :: "bytes \<Rightarrow> nat \<Rightarrow> int" where
  "unpack_u32 data offset = from_bytes_little (py_slice offset (offset + 4) data)"

text \<open>The body of the patch loop for the dword \<open>i\<close>; it takes the flag
  \<open>ob_need_to_apply\<close> and returns it updated (the source sets it before the register
  is looked up and written; if one of these raises, the flag is lost with the run).\<close>

definition patch_dword :: "env \<Rightarrow> ob_values \<Rightarrow> nat \<Rightarrow> bool \<Rightarrow> bool io" where
  "patch_dword E ob_values i ob_need_to_apply =
     (let device_addr = OPTION_BYTE_BASE E + int i * 8
      in io_bind (openocd_read_32 E device_addr) (\<lambda>device_value.
         let ob_write_mask = unpack_u32 (write_mask ob_values) (i * 8);
             ob_compare_mask = unpack_u32 (compare_mask ob_values) (i * 8);
             ob_value_ref = unpack_u32 (reference ob_values) (i * 8);
             ob_value_masked = device_value AND ob_compare_mask;
             need_patch = ((ob_value_masked XOR ob_value_ref) AND ob_write_mask \<noteq> 0)
         in if need_patch
            then
              io_then (logger Info
                (''Need to patch: '' @ format_08 upper_digits device_addr @ '': ''
                   @ format_08 upper_digits ob_value_masked @ '' != ''
                   @ format_08 upper_digits ob_value_ref @ '', REG['' @ str_int (int i) @ '']''))
             (io_bind (io_lift (option_bytes_id_to_address E i)) (\<lambda>device_reg_addr.
              let ob_value = device_value AND (NOT ob_write_mask);
                  ob_value = ob_value OR (ob_value_ref AND ob_write_mask)
              in
              io_then (logger Info
                (''Writing '' @ format_08 upper_digits ob_value @ '' to ''
                   @ format_08 upper_digits device_reg_addr))
             (io_then (openocd_write_32 E device_reg_addr ob_value)
             (io_return True))))
            else io_return ob_need_to_apply))"

fun patch_loop :: "env \<Rightarrow> ob_values \<Rightarrow> nat list \<Rightarrow> bool \<Rightarrow> bool io" where
  "patch_loop E ob_values [] ob_need_to_apply = io_return ob_need_to_apply"
| "patch_loop E ob_values (i # is) ob_need_to_apply =
     io_bind (patch_dword E ob_values i ob_need_to_apply) (\<lambda>ob_need_to_apply.
     patch_loop E ob_values is ob_need_to_apply)"

definition option_bytes_set :: "env \<Rightarrow> string \<Rightarrow> bool io" where
  "option_bytes_set E file_path =
     io_then (logger Info ''Setting Option Bytes'')
    (io_then (openocd_start E)
    (io_then (stm32_reset E Init)
    (io_bind (io_lift (load_option_bytes E file_path)) (\<lambda>ob_values.
       let ob_length = length (reference ob_values);
           ob_dwords = ob_length div 8
       in
     io_then (stm32_clear_flash_errors E)
    (io_then (stm32_flash_unlock E)
    (io_then (stm32_option_bytes_unlock E)
    (io_bind (patch_loop E ob_values [0..<ob_dwords] False) (\<lambda>ob_need_to_apply.
     io_then
       (if ob_need_to_apply then stm32_option_bytes_apply E
        else logger Info ''Option Bytes are already correct'')
    (io_then (stm32_option_bytes_load E)
    (io_then (stm32_reset E Run)
    (io_then (openocd_stop E)
    (io_return True))))))))))))"

subsection \<open>otp\_write\<close>

text \<open>\<^verbatim>\<open>self.logger.info(oocd.send_tcl(f"mdw {address} 2").strip())\<close>\<close>

definition log_mdw :: "env \<Rightarrow> int \<Rightarrow> unit io" where
  "log_mdw E address =
     io_bind (openocd_send_tcl E (''mdw '' @ str_int address @ '' 2'')) (\<lambda>resp.
     logger Info (strip resp))"

definition otp_write :: "env \<Rightarrow> int \<Rightarrow> bytes \<Rightarrow> bool io" where
  "otp_write E address data =
     io_then (openocd_start E)
    (io_bind (reset E RunMode_Stop) (\<lambda>_.
     io_then (stm32_clear_flash_errors E)
    (io_then (log_mdw E address)
    (io_then (log_mdw E (address + 8))
    (io_then (stm32_write_flash E address 0x12345678 0x9ABCDEF1)
    (io_then (stm32_write_flash E (address + 8) 0x9ABCDEF1 0x12345678)
    (io_then (log_mdw E address)
    (io_then (log_mdw E (address + 8))
    (io_then (stm32_reset E Run)
    (io_then (openocd_stop E)
    (io_return True)))))))))))"

subsection \<open>What a run shows\<close>

text \<open>The register writes of a run, in order, as pairs of address and value.\<close>

fun writes_of :: "event list \<Rightarrow> (int \<times> int) list" where
  "writes_of [] = []"
| "writes_of (Write32 a v # es) = (a, v) # writes_of es"
| "writes_of (e # es) = writes_of es"

text \<open>The register reads of a run, in order, as pairs of address and value read.\<close>

fun reads_of :: "event list \<Rightarrow> (int \<times> int) list" where
  "reads_of [] = []"
| "reads_of (Read32 a v # es) = (a, v) # reads_of es"
| "reads_of (e # es) = reads_of es"

fun is_read :: "event \<Rightarrow> bool" where
  "is_read (Read32 a v) = True"
| "is_read e = False"

text \<open>The run cut at its reads: each read, with the writes that follow it before the
  next read. In \<open>option_bytes_set\<close> the patch loop reads once for each dword, so the
  \<open>i\<close>-th entry is what the loop did for the dword \<open>i\<close>.\<close>

fun rounds_of :: "event list \<Rightarrow> ((int \<times> int) \<times> (int \<times> int) list) list" where
  "rounds_of [] = []"
| "rounds_of (Read32 a v # es) =
     ((a, v), writes_of (takeWhile (\<lambda>e. \<not> is_read e) es)) # rounds_of es"
| "rounds_of (e # es) = rounds_of es"

text \<open>The bytes of the words read in a run: each word as \<open>option_bytes_validate\<close>
  turns it into bytes, four bytes in little-endian order.\<close>

definition device_bytes :: "event list \<Rightarrow> bytes" where
  "device_bytes es =
     concat (map (\<lambda>(a, v). case to_bytes_little 4 v of Inr bs \<Rightarrow> bs | Inl err \<Rightarrow> [])
       (reads_of es))"

text \<open>The commands of the unlock sequence.\<close>

fun is_unlock_step :: "event \<Rightarrow> bool" where
  "is_unlock_step ClearFlashErrors = True"
| "is_unlock_step FlashUnlock = True"
| "is_unlock_step OptionBytesUnlock = True"
| "is_unlock_step e = False"

fun is_log :: "event \<Rightarrow> bool" where
  "is_log (Log l s) = True"
| "is_log e = False"

text \<open>The events that the patch loop of \<open>option_bytes_set\<close> emits.\<close>

fun is_patch_event :: "event \<Rightarrow> bool" where
  "is_patch_event (Read32 a v) = True"
| "is_patch_event (Write32 a v) = True"
| "is_patch_event (Log l s) = True"
| "is_patch_event e = False"

text \<open>
  What the patch loop shows for the dword \<open>i\<close>, as an entry of \<open>rounds_of\<close>: the read
  of the dword's address and, if the value read needs a patch, the one write of the
  patched value to the dword's register.
\<close>

definition dword_round ::
  "env \<Rightarrow> ob_values \<Rightarrow> nat \<Rightarrow> (int \<times> int) \<times> (int \<times> int) list \<Rightarrow> bool" where
  "dword_round E img i rnd =
     (case rnd of ((a, live), ws) \<Rightarrow>
        let wm = unpack_u32 (write_mask img) (i * 8);
            cm = unpack_u32 (compare_mask img) (i * 8);
            ref = unpack_u32 (reference img) (i * 8)
        in a = OPTION_BYTE_BASE E + int i * 8 \<and>
           (if ((live AND cm) XOR ref) AND wm \<noteq> 0
            then (case option_bytes_id_to_address E i of
                    Inr reg \<Rightarrow> ws = [(reg, (live AND NOT wm) OR (ref AND wm))]
                  | Inl err \<Rightarrow> False)
            else ws = []))"

text \<open>The same for a run that may have raised in the middle of the pass: the read was
  made, and either nothing was written or the pass is as above.\<close>

definition dword_attempt ::
  "env \<Rightarrow> ob_values \<Rightarrow> nat \<Rightarrow> (int \<times> int) \<times> (int \<times> int) list \<Rightarrow> bool" where
  "dword_attempt E img i rnd = (snd rnd = [] \<or> dword_round E img i rnd)"

subsection \<open>A device to run the operations on\<close>

text \<open>
  A bench set-up for concrete runs: the declaration file \<^verbatim>\<open>ob.data\<close> holds the image
  \<open>img\<close> and no other file exists, a read of address \<open>a\<close> answers \<open>mem a\<close>, the
  probe raises as \<open>rs\<close> says, the option bytes start at \<open>0x1FFF8000\<close> and the first
  two dwords have a register.
\<close>

definition bench :: "ob_values \<Rightarrow> (int \<Rightarrow> int) \<Rightarrow> (event \<Rightarrow> error option) \<Rightarrow> env" where
  "bench img mem rs =
     \<lparr> path_exists = (\<lambda>p. p = ''ob.data''),
       load_option_bytes =
         (\<lambda>p. if p = ''ob.data'' then Inr img else Inl (External ''No such file'')),
       read_32_value = (\<lambda>h a. mem a),
       send_tcl_response = (\<lambda>h c. []),
       raises = (\<lambda>h e. rs e),
       OPTION_BYTE_BASE = 0x1FFF8000,
       option_bytes_id_to_address =
         (\<lambda>i. if i = 0 then Inr 0x58004020
              else if i = 1 then Inr 0x58004024
              else Inl (External ''Option Byte is not mapped to a register'')) \<rparr>"

text \<open>Two dwords: the high nibble of the first byte is compared and writable, the
  first byte of the second dword is compared only.\<close>

definition image_a :: ob_values where
  "image_a =
     \<lparr> reference    = [0xA0, 0, 0, 0, 0, 0, 0, 0, 0x0F, 0, 0, 0, 0, 0, 0, 0],
       compare_mask = [0xF0, 0, 0, 0, 0, 0, 0, 0, 0xFF, 0, 0, 0, 0, 0, 0, 0],
       write_mask   = [0xF0, 0, 0, 0, 0, 0, 0, 0, 0x00, 0, 0, 0, 0, 0, 0, 0] \<rparr>"

text \<open>One dword whose lowest bit is writable and set in the reference, but not
  compared.\<close>

definition image_b :: ob_values where
  "image_b =
     \<lparr> reference    = [0x01, 0, 0, 0, 0, 0, 0, 0],
       compare_mask = [0x00, 0, 0, 0, 0, 0, 0, 0],
       write_mask   = [0x01, 0, 0, 0, 0, 0, 0, 0] \<rparr>"

text \<open>A device whose first option byte is \<open>0x5A\<close>, and the same device after the high
  nibble has been patched.\<close>

definition mem_a :: "int \<Rightarrow> int" where
  "mem_a a = (if a = 0x1FFF8000 then 0x5A else if a = 0x1FFF8008 then 0x0F else 0)"

definition mem_a' :: "int \<Rightarrow> int" where
  "mem_a' a = (if a = 0x1FFF8000 then 0xAA else if a = 0x1FFF8008 then 0x0F else 0)"

text \<open>A device whose first option byte is \<open>0\<close>, and the same device after its lowest
  bit has been set.\<close>

definition mem_b :: "int \<Rightarrow> int" where
  "mem_b a = 0"

definition mem_b' :: "int \<Rightarrow> int" where
  "mem_b' a = (if a = 0x1FFF8000 then 1 else 0)"

definition no_fault :: "event \<Rightarrow> error option" where
  "no_fault e = None"

text \<open>A device that refuses to unlock its flash.\<close>

definition unlock_fault :: "event \<Rightarrow> error option" where
  "unlock_fault e = (if e = FlashUnlock then Some (External ''flash unlock failed'') else None)"

text \<open>A device whose flash cannot be written.\<close>

definition flash_write_fault :: "event \<Rightarrow> error option" where
  "flash_write_fault e =
     (case e of WriteFlash a w1 w2 \<Rightarrow> Some (External ''flash write failed'') | _ \<Rightarrow> None)"

text \<open>A probe whose reads fail.\<close>

definition read_fault :: "event \<Rightarrow> error option" where
  "read_fault e = (if is_read e then Some (External ''probe read failed'') else None)"

section \<open>Reasoning about runs\<close>

lemma io_bind_Inr_iff:
  "io_bind m f h = (es, Inr y) \<longleftrightarrow>
     (\<exists>es1 x es2. m h = (es1, Inr x) \<and> f x (h @ es1) = (es2, Inr y) \<and> es = es1 @ es2)"
  by (auto simp: io_bind_def split: prod.splits sum.splits)

lemma io_bind_Inl_iff:
  "io_bind m f h = (es, Inl e) \<longleftrightarrow>
     m h = (es, Inl e) \<or>
     (\<exists>es1 x es2. m h = (es1, Inr x) \<and> f x (h @ es1) = (es2, Inl e) \<and> es = es1 @ es2)"
  by (auto simp: io_bind_def split: prod.splits sum.splits)

lemma io_bindE:
  assumes "io_bind m f h = (es, r)"
  obtains (raised) e where "m h = (es, Inl e)" and "r = Inl e"
  | (went_on) es1 x es2 where "m h = (es1, Inr x)" and "f x (h @ es1) = (es2, r)"
      and "es = es1 @ es2"
  using assms by (auto simp: io_bind_def split: prod.splits sum.splits)

lemma interact_Inr_iff:
  "interact E e h = (es, Inr u) \<longleftrightarrow> raises E h e = None \<and> es = [e]"
  by (auto simp: interact_def split: option.splits)

lemma interact_Inl_iff:
  "interact E e h = (es, Inl err) \<longleftrightarrow> raises E h e = Some err \<and> es = []"
  by (auto simp: interact_def split: option.splits)

lemma logger_iff: "logger l s h = (es, r) \<longleftrightarrow> es = [Log l s] \<and> r = Inr ()"
  by (auto simp: logger_def)

lemma io_return_iff: "io_return x h = (es, r) \<longleftrightarrow> es = [] \<and> r = Inr x"
  by (auto simp: io_return_def)

lemma io_lift_iff: "io_lift v h = (es, r) \<longleftrightarrow> es = [] \<and> v = r"
  by (auto simp: io_lift_def)

lemma io_raise_iff: "io_raise e h = (es, r) \<longleftrightarrow> es = [] \<and> r = Inl e"
  by (auto simp: io_raise_def)

lemma openocd_read_32_Inr_iff:
  "openocd_read_32 E a h = (es, Inr v) \<longleftrightarrow>
     raises E h (Read32 a (read_32_value E h a)) = None \<and> v = read_32_value E h a
       \<and> es = [Read32 a v]"
  by (auto simp: openocd_read_32_def Let_def io_bind_Inr_iff interact_Inr_iff io_return_iff)

lemma openocd_read_32_Inl_iff:
  "openocd_read_32 E a h = (es, Inl e) \<longleftrightarrow>
     raises E h (Read32 a (read_32_value E h a)) = Some e \<and> es = []"
  by (auto simp: openocd_read_32_def Let_def io_bind_Inl_iff interact_Inl_iff interact_Inr_iff
      io_return_iff)

lemma openocd_send_tcl_Inr_iff:
  "openocd_send_tcl E c h = (es, Inr v) \<longleftrightarrow>
     raises E h (SendTcl c (send_tcl_response E h c)) = None \<and> v = send_tcl_response E h c
       \<and> es = [SendTcl c v]"
  by (auto simp: openocd_send_tcl_def Let_def io_bind_Inr_iff interact_Inr_iff io_return_iff)

lemma openocd_send_tcl_Inl_iff:
  "openocd_send_tcl E c h = (es, Inl e) \<longleftrightarrow>
     raises E h (SendTcl c (send_tcl_response E h c)) = Some e \<and> es = []"
  by (auto simp: openocd_send_tcl_def Let_def io_bind_Inl_iff interact_Inl_iff interact_Inr_iff
      io_return_iff)

lemmas command_defs =
  openocd_start_def openocd_stop_def openocd_write_32_def stm32_reset_def
  stm32_clear_flash_errors_def stm32_flash_unlock_def stm32_option_bytes_unlock_def
  stm32_option_bytes_apply_def stm32_option_bytes_load_def stm32_write_flash_def

lemmas run_iffs =
  io_bind_Inr_iff io_bind_Inl_iff interact_Inr_iff interact_Inl_iff logger_iff io_return_iff
  io_lift_iff io_raise_iff openocd_read_32_Inr_iff openocd_read_32_Inl_iff
  openocd_send_tcl_Inr_iff openocd_send_tcl_Inl_iff

text \<open>The bench, field by field.\<close>

lemma bench_simps:
  "path_exists (bench img mem rs) p = (p = ''ob.data'')"
  "load_option_bytes (bench img mem rs) p =
     (if p = ''ob.data'' then Inr img else Inl (External ''No such file''))"
  "read_32_value (bench img mem rs) h a = mem a"
  "send_tcl_response (bench img mem rs) h c = []"
  "raises (bench img mem rs) h e = rs e"
  "OPTION_BYTE_BASE (bench img mem rs) = 0x1FFF8000"
  "option_bytes_id_to_address (bench img mem rs) i =
     (if i = 0 then Inr 0x58004020
      else if i = 1 then Inr 0x58004024
      else Inl (External ''Option Byte is not mapped to a register''))"
  by (simp_all add: bench_def)

lemma replicate_numeral_Cons:
  "replicate (numeral k) x = x # replicate (pred_numeral k) x"
  by (simp add: numeral_eq_Suc)

text \<open>What is needed to run an operation on the bench by rewriting.\<close>

lemmas run_defs =
  io_then_def io_bind_def command_defs interact_def logger_def io_lift_def io_return_def
  io_raise_def openocd_read_32_def openocd_send_tcl_def bench_simps no_fault_def read_fault_def unlock_fault_def flash_write_fault_def
  upt_rec unpack_u32_def py_slice_def format_08_def zfill_def hex_digits.simps dec_digits.simps
  str_int_def upper_digits_def lower_digits_def Let_def replicate_numeral_Cons

section \<open>The diff table\<close>

text \<open>Printing with the logger: the header, then one line for each chunk.\<close>

lemma io_iter_logger:
  "io_iter (\<lambda>x. logger l (f x)) xs h = (map (\<lambda>x. Log l (f x)) xs, Inr ())"
  by (induction xs arbitrary: h) (simp_all add: io_return_def io_then_def io_bind_def logger_def)

lemma ob_print_diff_table_logger:
  "ob_print_diff_table ref read (logger l) h =
     (Log l diff_header # map (\<lambda>i. Log l (diff_line ref read i)) (range_step (length ref) 8),
      Inr ())"
  by (simp add: ob_print_diff_table_def io_then_def io_bind_def logger_def io_iter_logger)

lemma slice_concat_pairs:
  "\<forall>x \<in> set xs. length (f x) = 2 \<Longrightarrow> p < length xs \<Longrightarrow>
     py_slice (p * 2) (p * 2 + 2) (concat (map f xs)) = f (xs ! p)"
proof (induction xs arbitrary: p)
  case Nil
  then show ?case by simp
next
  case (Cons x xs)
  show ?case
  proof (cases p)
    case 0
    with Cons.prems show ?thesis by (simp add: py_slice_def)
  next
    case (Suc q)
    with Cons.prems have "py_slice (q * 2) (q * 2 + 2) (concat (map f xs)) = f (xs ! q)"
      by (intro Cons.IH) auto
    with Suc Cons.prems show ?thesis by (simp add: py_slice_def)
  qed
qed

lemma length_byte_hex: "length (byte_hex b) = 2"
  by (simp add: byte_hex_def)

text \<open>Two bytes have the same hex pair only if they are the same byte.\<close>

lemma byte_hex_inject: "byte_hex a = byte_hex b \<longleftrightarrow> a = b"
proof
  assume eq: "byte_hex a = byte_hex b"
  have d: "distinct lower_digits" "length lower_digits = 16"
    by (simp_all add: lower_digits_def)
  have la: "unat a < 256" and lb: "unat b < 256"
    using unsigned_less [of a, where ?'a = nat] unsigned_less [of b, where ?'a = nat] by simp_all
  then have "unat a div 16 < 16" "unat b div 16 < 16" "unat a mod 16 < 16" "unat b mod 16 < 16"
    by simp_all
  with eq d have "unat a div 16 = unat b div 16" "unat a mod 16 = unat b mod 16"
    by (simp_all add: byte_hex_def nth_eq_iff_index_eq)
  then have "unat a = unat b"
    by (metis div_mult_mod_eq)
  then show "a = b" by (simp add: word_unat_eq_iff)
qed simp

lemma slice_bytes_hex:
  "p < length bs \<Longrightarrow> py_slice (p * 2) (p * 2 + 2) (bytes_hex bs) = byte_hex (bs ! p)"
  unfolding bytes_hex_def by (rule slice_concat_pairs) (simp_all add: length_byte_hex)

lemma length_bytes_hex: "length (bytes_hex bs) = 2 * length bs"
  by (induction bs) (simp_all add: bytes_hex_def length_byte_hex)

lemma range_step_2: "range_step (2 * n) 2 = map (\<lambda>q. q * 2) [0..<n]"
  by (simp add: range_step_def)

lemma diff_loop_concat:
  "diff_loop rh dh (map (\<lambda>q. q * 2) qs) (d1, d2) =
     (d1 @ concat (map (\<lambda>q. if py_slice (q * 2) (q * 2 + 2) rh = py_slice (q * 2) (q * 2 + 2) dh
                              then ''__'' else py_slice (q * 2) (q * 2 + 2) rh) qs),
      d2 @ concat (map (\<lambda>q. if py_slice (q * 2) (q * 2 + 2) rh = py_slice (q * 2) (q * 2 + 2) dh
                              then ''__'' else py_slice (q * 2) (q * 2 + 2) dh) qs))"
  by (induction qs arbitrary: d1 d2) (simp_all add: Let_def)

text \<open>For chunks of the same length, each position shows \<open>__\<close> where the bytes agree and
  the byte's own hex pair where they differ.\<close>

lemma diff_strs_same_length:
  assumes "length read = length ref"
  shows "diff_strs ref read =
     (concat (map (\<lambda>q. if ref ! q = read ! q then ''__'' else byte_hex (ref ! q))
        [0..<length ref]),
      concat (map (\<lambda>q. if ref ! q = read ! q then ''__'' else byte_hex (read ! q))
        [0..<length ref]))"
proof -
  let ?rh = "bytes_hex ref" and ?dh = "bytes_hex read"
  have 1: "map (\<lambda>q. if py_slice (q * 2) (q * 2 + 2) ?rh = py_slice (q * 2) (q * 2 + 2) ?dh
                       then ''__'' else py_slice (q * 2) (q * 2 + 2) ?rh) [0..<length ref]
         = map (\<lambda>q. if ref ! q = read ! q then ''__'' else byte_hex (ref ! q)) [0..<length ref]"
    by (rule map_cong)
      (simp_all only: slice_bytes_hex byte_hex_inject assms atLeastLessThan_iff set_upt)
  have 2: "map (\<lambda>q. if py_slice (q * 2) (q * 2 + 2) ?rh = py_slice (q * 2) (q * 2 + 2) ?dh
                       then ''__'' else py_slice (q * 2) (q * 2 + 2) ?dh) [0..<length ref]
         = map (\<lambda>q. if ref ! q = read ! q then ''__'' else byte_hex (read ! q)) [0..<length ref]"
    by (rule map_cong)
      (simp_all only: slice_bytes_hex byte_hex_inject assms atLeastLessThan_iff set_upt)
  show ?thesis
    unfolding diff_strs_def length_bytes_hex range_step_2 diff_loop_concat 1 2 by simp
qed

lemma upt_8: "[0..<8] = [0, 1, 2, 3, 4, 5, 6, 7]"
  by (simp add: upt_rec)

lemma below_8:
  "k < 8 \<Longrightarrow> k = 0 \<or> k = 1 \<or> k = 2 \<or> k = 3 \<or> k = 4 \<or> k = 5 \<or> k = 6 \<or> k = (7::nat)"
  by arith

text \<open>The two diff strings of the inner loop for a pair of 8-byte chunks.\<close>

lemma diff_strs_chunk:
  assumes "length ref = 8" and "length read = 8"
  shows "(ref = read \<longrightarrow>
            diff_strs ref read = (''________________'', ''________________'')) \<and>
         (\<forall>k<8. ref ! k \<noteq> read ! k \<and> (\<forall>p<8. p \<noteq> k \<longrightarrow> ref ! p = read ! p) \<longrightarrow>
            diff_strs ref read =
              (replicate (2 * k) (CHR ''_'') @ byte_hex (ref ! k)
                 @ replicate (14 - 2 * k) (CHR ''_''),
               replicate (2 * k) (CHR ''_'') @ byte_hex (read ! k)
                 @ replicate (14 - 2 * k) (CHR ''_'')))"
proof (intro conjI allI impI)
  assume "ref = read"
  with assms show "diff_strs ref read = (''________________'', ''________________'')"
    by (simp add: diff_strs_same_length upt_8)
next
  fix k :: nat
  assume k: "k < 8"
    and one: "ref ! k \<noteq> read ! k \<and> (\<forall>p<8. p \<noteq> k \<longrightarrow> ref ! p = read ! p)"
  from below_8 [OF k] one assms
  show "diff_strs ref read =
      (replicate (2 * k) (CHR ''_'') @ byte_hex (ref ! k) @ replicate (14 - 2 * k) (CHR ''_''),
       replicate (2 * k) (CHR ''_'') @ byte_hex (read ! k) @ replicate (14 - 2 * k) (CHR ''_''))"
    by (elim disjE) (simp_all add: diff_strs_same_length upt_8 numeral_eq_Suc)
qed

lemma length_py_slice_8: "i + 8 \<le> length xs \<Longrightarrow> length (py_slice i (i + 8) xs) = 8"
  by (simp add: py_slice_def)

lemma ljust20_16: "length s = 16 \<Longrightarrow> ljust20 s = s @ ''    ''"
  by (simp add: ljust20_def replicate_numeral_Cons)

lemma range_step_8_mem:
  assumes "8 dvd i" and "i < n"
  shows "i \<in> set (range_step n 8)"
proof -
  from assms(1) obtain q where q: "i = q * 8"
    by (auto simp: dvd_def)
  with assms(2) have "q < (n + 8 - 1) div 8"
    by simp
  with q show ?thesis
    by (auto simp: range_step_def)
qed

lemma diff_line_chunk:
  assumes "i + 8 \<le> length ob_reference" and "i + 8 \<le> length ob_read"
    and "diff_strs (py_slice i (i + 8) ob_reference) (py_slice i (i + 8) ob_read) = (d1, d2)"
    and "length d1 = 16" and "length d2 = 16"
  shows "diff_line ob_reference ob_read i =
           bytes_hex (py_slice i (i + 8) ob_reference) @ ''    '' @ '' ''
             @ bytes_hex (py_slice i (i + 8) ob_read) @ ''    '' @ '' ''
             @ d1 @ ''    '' @ '' '' @ d2 @ ''    ''"
  using assms
  by (simp add: diff_line_def Let_def ljust20_16 length_bytes_hex length_py_slice_8)

text \<open>
  C9. The diff table printed for two buffers is the header followed by one row for each
  chunk start \<open>0, 8, 16, \<dots>\<close>. The row of a pair of 8-byte chunks is the hex of the
  reference chunk, the hex of the device chunk and the two diff columns, each padded to
  twenty characters and separated by one space. When the chunks are equal, both diff
  columns are sixteen underscores; when they differ in exactly the byte \<open>k\<close>, each diff
  column shows the two hex digits of its own chunk's byte at position \<open>k\<close> and \<open>__\<close> at
  the seven other positions.
\<close>

theorem diff_table_row:
  assumes "i + 8 \<le> length ob_reference" and "i + 8 \<le> length ob_read"
  shows
    "ob_print_diff_table ob_reference ob_read (logger l) h =
       (Log l diff_header
          # map (\<lambda>j. Log l (diff_line ob_reference ob_read j))
              (range_step (length ob_reference) 8),
        Inr ()) \<and>
     (8 dvd i \<longrightarrow> i \<in> set (range_step (length ob_reference) 8)) \<and>
     (py_slice i (i + 8) ob_reference = py_slice i (i + 8) ob_read \<longrightarrow>
        diff_line ob_reference ob_read i =
          bytes_hex (py_slice i (i + 8) ob_reference) @ ''    '' @ '' ''
            @ bytes_hex (py_slice i (i + 8) ob_read) @ ''    '' @ '' ''
            @ ''________________'' @ ''    '' @ '' ''
            @ ''________________'' @ ''    '') \<and>
     (\<forall>k<8. py_slice i (i + 8) ob_reference ! k \<noteq> py_slice i (i + 8) ob_read ! k \<and>
         (\<forall>p<8. p \<noteq> k \<longrightarrow>
            py_slice i (i + 8) ob_reference ! p = py_slice i (i + 8) ob_read ! p) \<longrightarrow>
        diff_line ob_reference ob_read i =
          bytes_hex (py_slice i (i + 8) ob_reference) @ ''    '' @ '' ''
            @ bytes_hex (py_slice i (i + 8) ob_read) @ ''    '' @ '' ''
            @ (replicate (2 * k) (CHR ''_'') @ byte_hex (py_slice i (i + 8) ob_reference ! k)
                 @ replicate (14 - 2 * k) (CHR ''_'')) @ ''    '' @ '' ''
            @ (replicate (2 * k) (CHR ''_'') @ byte_hex (py_slice i (i + 8) ob_read ! k)
                 @ replicate (14 - 2 * k) (CHR ''_'')) @ ''    '')"
proof (intro conjI allI impI)
  let ?ref = "py_slice i (i + 8) ob_reference" and ?read = "py_slice i (i + 8) ob_read"
  note len = length_py_slice_8 [OF assms(1)] length_py_slice_8 [OF assms(2)]
  note chunk = diff_strs_chunk [OF len]
  show "ob_print_diff_table ob_reference ob_read (logger l) h =
       (Log l diff_header
          # map (\<lambda>j. Log l (diff_line ob_reference ob_read j))
              (range_step (length ob_reference) 8),
        Inr ())"
    by (rule ob_print_diff_table_logger)
  show "i \<in> set (range_step (length ob_reference) 8)" if "8 dvd i"
    using that assms(1) by (intro range_step_8_mem) simp_all
  show "diff_line ob_reference ob_read i =
          bytes_hex ?ref @ ''    '' @ '' '' @ bytes_hex ?read @ ''    '' @ '' ''
            @ ''________________'' @ ''    '' @ '' '' @ ''________________'' @ ''    ''"
    if "?ref = ?read"
    using chunk [THEN conjunct1, rule_format, OF that]
    by (intro diff_line_chunk [OF assms]) simp_all
  show "diff_line ob_reference ob_read i =
          bytes_hex ?ref @ ''    '' @ '' '' @ bytes_hex ?read @ ''    '' @ '' ''
            @ (replicate (2 * k) (CHR ''_'') @ byte_hex (?ref ! k)
                 @ replicate (14 - 2 * k) (CHR ''_'')) @ ''    '' @ '' ''
            @ (replicate (2 * k) (CHR ''_'') @ byte_hex (?read ! k)
                 @ replicate (14 - 2 * k) (CHR ''_'')) @ ''    ''"
    if "k < 8" and "?ref ! k \<noteq> ?read ! k \<and> (\<forall>p<8. p \<noteq> k \<longrightarrow> ?ref ! p = ?read ! p)" for k
    using chunk [THEN conjunct2, rule_format, OF that] that(1)
    by (intro diff_line_chunk [OF assms]) (simp_all add: length_byte_hex)
qed

theorem diff_table_row_witness:
  "ob_print_diff_table [0xA0, 0, 0, 0, 0, 0, 0, 0, 0x0F, 0, 0, 0, 0, 0, 0, 0]
     [0x50, 0, 0, 0, 0, 0, 0, 0, 0x0F, 0, 0, 0, 0, 0, 0, 0] (logger Error) [] =
     ([Log Error
         ''Reference            Device               Diff Reference       Diff Device         '',
       Log Error
         ''a000000000000000     5000000000000000     a0______________     50______________    '',
       Log Error
         ''0f00000000000000     0f00000000000000     ________________     ________________    ''],
      Inr ())"
proof -
  let ?R = "[0xA0, 0, 0, 0, 0, 0, 0, 0, 0x0F, 0, 0, 0, 0, 0, 0, 0] :: bytes"
  let ?D = "[0x50, 0, 0, 0, 0, 0, 0, 0, 0x0F, 0, 0, 0, 0, 0, 0, 0] :: bytes"
  have s0: "py_slice 0 (0 + 8) ?R = [0xA0, 0, 0, 0, 0, 0, 0, 0]"
    "py_slice 0 (0 + 8) ?D = [0x50, 0, 0, 0, 0, 0, 0, 0]"
    and s8: "py_slice 8 (8 + 8) ?R = [0x0F, 0, 0, 0, 0, 0, 0, 0]"
    "py_slice 8 (8 + 8) ?D = [0x0F, 0, 0, 0, 0, 0, 0, 0]"
    by (simp_all add: py_slice_def)
  have t0: "py_slice 0 8 ?R = [0xA0, 0, 0, 0, 0, 0, 0, 0]"
    "py_slice 0 8 ?D = [0x50, 0, 0, 0, 0, 0, 0, 0]"
    and t8: "py_slice 8 16 ?R = [0x0F, 0, 0, 0, 0, 0, 0, 0]"
    "py_slice 8 16 ?D = [0x0F, 0, 0, 0, 0, 0, 0, 0]"
    by (simp_all add: py_slice_def)
  have hex: "bytes_hex [0xA0, 0, 0, 0, 0, 0, 0, 0] = ''a000000000000000''"
    "bytes_hex [0x50, 0, 0, 0, 0, 0, 0, 0] = ''5000000000000000''"
    "bytes_hex [0x0F, 0, 0, 0, 0, 0, 0, 0] = ''0f00000000000000''"
    "byte_hex 0xA0 = ''a0''" "byte_hex 0x50 = ''50''"
    by (simp_all add: bytes_hex_def byte_hex_def lower_digits_def)
  have pad: "replicate (2 * 0) (CHR ''_'') = []"
    "replicate (14 - 2 * 0) (CHR ''_'') = ''______________''"
    "replicate 14 (CHR ''_'') = ''______________''"
    by code_simp+
  have steps: "range_step (length ?R) 8 = [0, 8]"
    by (simp add: range_step_def upt_rec)
  have header: "diff_header =
      ''Reference            Device               Diff Reference       Diff Device         ''"
    by (simp add: diff_header_def ljust20_def replicate_numeral_Cons)
  have differ: "[0xA0, 0, 0, 0, 0, 0, 0, 0] ! 0 \<noteq> ([0x50, 0, 0, 0, 0, 0, 0, 0] :: bytes) ! 0 \<and>
      (\<forall>p<8. p \<noteq> 0 \<longrightarrow>
         [0xA0, 0, 0, 0, 0, 0, 0, 0] ! p = ([0x50, 0, 0, 0, 0, 0, 0, 0] :: bytes) ! p)"
    by (auto dest!: below_8)
  have l: "0 + 8 \<le> length ?R" "0 + 8 \<le> length ?D" "8 + 8 \<le> length ?R" "8 + 8 \<le> length ?D"
    by simp_all
  note row0 = diff_table_row [OF l(1,2), of Error "[]"]
  note row8 = diff_table_row [OF l(3,4), of Error "[]"]
  have events: "ob_print_diff_table ?R ?D (logger Error) [] =
      ([Log Error diff_header, Log Error (diff_line ?R ?D 0), Log Error (diff_line ?R ?D 8)],
       Inr ())"
    by (simp only: row0 [THEN conjunct1] steps list.map)
  have line0: "diff_line ?R ?D 0 =
      ''a000000000000000     5000000000000000     a0______________     50______________    ''"
    using row0 [THEN conjunct2, THEN conjunct2, THEN conjunct2, rule_format, of 0] differ
    by (simp add: s0 t0 hex pad)
  have line8: "diff_line ?R ?D 8 =
      ''0f00000000000000     0f00000000000000     ________________     ________________    ''"
    using row8 [THEN conjunct2, THEN conjunct2, THEN conjunct1]
    by (simp add: s8 t8 hex)
  show ?thesis
    by (simp only: events header line0 line8)
qed

section \<open>option\_bytes\_set\<close>

lemma writes_of_append: "writes_of (xs @ ys) = writes_of xs @ writes_of ys"
  by (induction xs rule: writes_of.induct) simp_all

lemma reads_of_append: "reads_of (xs @ ys) = reads_of xs @ reads_of ys"
  by (induction xs rule: reads_of.induct) simp_all

lemma rounds_of_skip: "\<forall>e \<in> set xs. \<not> is_read e \<Longrightarrow> rounds_of (xs @ ys) = rounds_of ys"
  by (induction xs rule: rounds_of.induct) simp_all

lemma takeWhile_quiet_tail:
  assumes "\<forall>e \<in> set ys. \<not> is_read e" and "writes_of ys = []"
  shows "writes_of (takeWhile (\<lambda>e. \<not> is_read e) (xs @ ys))
       = writes_of (takeWhile (\<lambda>e. \<not> is_read e) xs)"
proof (cases "\<forall>e \<in> set xs. \<not> is_read e")
  case True
  with assms show ?thesis
    by (simp add: takeWhile_append2 writes_of_append takeWhile_eq_all_conv [THEN iffD2])
next
  case False
  then show ?thesis by (auto simp: takeWhile_append1)
qed

lemma rounds_of_quiet_tail:
  assumes "\<forall>e \<in> set ys. \<not> is_read e" and "writes_of ys = []"
  shows "rounds_of (xs @ ys) = rounds_of xs"
proof (induction xs rule: rounds_of.induct)
  case 1
  from assms(1) show ?case using rounds_of_skip [of ys "[]"] by simp
qed (simp_all add: takeWhile_quiet_tail [OF assms])

lemma patch_dword_Inr:
  assumes "patch_dword E img i flag h = (es, Inr flag')"
  defines "a \<equiv> OPTION_BYTE_BASE E + int i * 8"
  shows "es = Read32 a (read_32_value E h a) # tl es
           \<and> (\<forall>e \<in> set (tl es). \<not> is_read e \<and> is_patch_event e)
           \<and> dword_round E img i ((a, read_32_value E h a), writes_of (tl es))
           \<and> (flag' \<longleftrightarrow> flag \<or> writes_of (tl es) \<noteq> [])"
  using assms(1) unfolding patch_dword_def dword_round_def a_def
  by (auto simp: Let_def io_then_def run_iffs command_defs split: if_splits)


lemma patch_loop_Inr:
  assumes "patch_loop E img is flag h = (les, Inr flag')"
  shows "list_all2 (dword_round E img) is (rounds_of les)
           \<and> takeWhile (\<lambda>e. \<not> is_read e) les = []
           \<and> (\<forall>e \<in> set les. is_patch_event e)
           \<and> writes_of les = concat (map snd (rounds_of les))
           \<and> (flag' \<longleftrightarrow> flag \<or> writes_of les \<noteq> [])"
  using assms
proof (induction "is" arbitrary: flag h les)
  case Nil
  then show ?case by (simp add: io_return_iff)
next
  case (Cons i "is")
  from Cons.prems obtain es1 f1 es2 where
    body: "patch_dword E img i flag h = (es1, Inr f1)"
    and rest: "patch_loop E img is f1 (h @ es1) = (es2, Inr flag')"
    and les: "les = es1 @ es2"
    by (auto simp: io_bind_Inr_iff)
  define a where "a = OPTION_BYTE_BASE E + int i * 8"
  define v where "v = read_32_value E h a"
  from patch_dword_Inr [OF body] have
    es1: "es1 = Read32 a v # tl es1"
    and quiet: "\<forall>e \<in> set (tl es1). \<not> is_read e \<and> is_patch_event e"
    and round: "dword_round E img i ((a, v), writes_of (tl es1))"
    and f1: "f1 \<longleftrightarrow> flag \<or> writes_of (tl es1) \<noteq> []"
    unfolding a_def v_def by simp_all
  from Cons.IH [OF rest] have
    ih_rounds: "list_all2 (dword_round E img) is (rounds_of es2)"
    and ih_head: "takeWhile (\<lambda>e. \<not> is_read e) es2 = []"
    and ih_events: "\<forall>e \<in> set es2. is_patch_event e"
    and ih_writes: "writes_of es2 = concat (map snd (rounds_of es2))"
    and ih_flag: "flag' \<longleftrightarrow> f1 \<or> writes_of es2 \<noteq> []"
    by simp_all
  have shape: "les = Read32 a v # tl es1 @ es2"
    using les es1 by (metis append_Cons)
  have tw: "takeWhile (\<lambda>e. \<not> is_read e) (tl es1 @ es2) = tl es1"
    using quiet ih_head by (simp add: takeWhile_append2)
  have rs: "rounds_of les = ((a, v), writes_of (tl es1)) # rounds_of es2"
    using quiet by (simp add: shape tw rounds_of_skip)
  have ev: "\<forall>e \<in> set les. is_patch_event e"
    using quiet ih_events by (auto simp: shape)
  show ?case
    using round ih_rounds ih_writes ih_flag f1 ev
    by (simp add: rs) (simp add: shape writes_of_append)
qed

lemma option_bytes_set_Inr:
  assumes "option_bytes_set E file_path h = (es, Inr r)"
  obtains img les flag where
    "load_option_bytes E file_path = Inr img"
    "patch_loop E img [0..<length (reference img) div 8] False
       (h @ [Log Info ''Setting Option Bytes'', Start, Reset Init, ClearFlashErrors,
             FlashUnlock, OptionBytesUnlock]) = (les, Inr flag)"
    "es = [Log Info ''Setting Option Bytes'', Start, Reset Init, ClearFlashErrors,
           FlashUnlock, OptionBytesUnlock] @ les
          @ (if flag then [OptionBytesApply] else [Log Info ''Option Bytes are already correct''])
          @ [OptionBytesLoad, Reset Run, Stop]"
    "r = True"
  using assms unfolding option_bytes_set_def
  by (auto simp: Let_def io_then_def run_iffs command_defs split: if_splits)

lemma patch_dword_events:
  assumes "patch_dword E img i flag h = (es, r)"
  shows "\<forall>e \<in> set es. is_patch_event e"
proof (cases r)
  case (Inl err)
  with assms show ?thesis
    unfolding patch_dword_def
    by (auto simp: Let_def io_then_def run_iffs command_defs split: if_splits)
next
  case (Inr f)
  with assms patch_dword_Inr [of E img i flag h es f] show ?thesis
    by (metis is_patch_event.simps(1) list.collapse list.discI set_ConsD)
qed

lemma patch_loop_events:
  "patch_loop E img is flag h = (les, r) \<Longrightarrow> \<forall>e \<in> set les. is_patch_event e"
proof (induction "is" arbitrary: flag h les)
  case Nil
  then show ?case by (simp add: io_return_iff)
next
  case (Cons i "is")
  from Cons.prems have "io_bind (patch_dword E img i flag) (\<lambda>f. patch_loop E img is f) h = (les, r)"
    by simp
  then show ?case
  proof (cases rule: io_bindE)
    case (raised e)
    then show ?thesis using patch_dword_events by blast
  next
    case (went_on es1 x es2)
    with patch_dword_events [of E img i flag h es1] Cons.IH [of x "h @ es1" es2]
    show ?thesis by auto
  qed
qed

lemma patch_event_not_unlock: "is_patch_event e \<Longrightarrow> \<not> is_unlock_step e"
  by (cases e) simp_all

lemma filter_unlock_patch_events:
  "\<forall>e \<in> set les. is_patch_event e \<Longrightarrow> filter is_unlock_step les = []"
  by (auto simp: filter_empty_conv patch_event_not_unlock)

lemma unlock_steps_prefix:
  assumes "option_bytes_set E file_path h = (es, r)"
  shows "prefix (filter is_unlock_step es) [ClearFlashErrors, FlashUnlock, OptionBytesUnlock]
       \<and> ((\<exists>x. r = Inr x) \<longrightarrow>
            filter is_unlock_step es = [ClearFlashErrors, FlashUnlock, OptionBytesUnlock])"
proof (cases r)
  case (Inr x)
  with assms show ?thesis
    by (auto elim!: option_bytes_set_Inr dest!: patch_loop_events filter_unlock_patch_events)
next
  case (Inl err)
  with assms show ?thesis
    unfolding option_bytes_set_def
    by (auto simp: Let_def io_then_def run_iffs command_defs split: if_splits
        dest!: patch_loop_events filter_unlock_patch_events)
qed

lemma filter_three:
  assumes "filter P es = [x, y, z]"
  shows "\<exists>a b c d. es = a @ x # b @ y # c @ z # d"
proof -
  from filter_eq_ConsD [OF assms] obtain a r1 where 1: "es = a @ x # r1" "[y, z] = filter P r1"
    by blast
  from filter_eq_ConsD [OF 1(2) [symmetric]] obtain b r2 where
    2: "r1 = b @ y # r2" "[z] = filter P r2"
    by blast
  from filter_eq_ConsD [OF 2(2) [symmetric]] obtain c d where 3: "r2 = c @ z # d"
    by blast
  from 1 2 3 show ?thesis by blast
qed

lemma unlock_prefix_full:
  assumes "prefix (filter is_unlock_step es) [ClearFlashErrors, FlashUnlock, OptionBytesUnlock]"
    and "OptionBytesUnlock \<in> set es"
  shows "filter is_unlock_step es = [ClearFlashErrors, FlashUnlock, OptionBytesUnlock]"
proof -
  define fs where "fs = filter is_unlock_step es"
  from assms(2) have "OptionBytesUnlock \<in> set fs"
    by (simp add: fs_def)
  moreover from assms(1) have "prefix fs [ClearFlashErrors, FlashUnlock, OptionBytesUnlock]"
    by (simp add: fs_def)
  ultimately have "fs = [ClearFlashErrors, FlashUnlock, OptionBytesUnlock]"
    by (auto simp: prefix_Cons split: list.splits)
  then show ?thesis by (simp add: fs_def)
qed


text \<open>
  C5. In every run of \<open>option_bytes_set\<close>, whatever its input and however it ends, the
  commands of the unlock sequence that are issued are, in this order, an initial part of:
  clear the flash errors, unlock the flash, unlock the option bytes. So whenever the
  option byte unlock is issued, the flash unlock was issued strictly before it and the
  clearing of the flash errors before both. In a run that returns, all three are issued.
\<close>

theorem unlock_order:
  assumes "option_bytes_set E file_path h = (es, r)"
  shows "prefix (filter is_unlock_step es) [ClearFlashErrors, FlashUnlock, OptionBytesUnlock]
       \<and> (OptionBytesUnlock \<in> set es \<longrightarrow>
            (\<exists>a b c d. es = a @ ClearFlashErrors # b @ FlashUnlock # c @ OptionBytesUnlock # d))
       \<and> ((\<exists>x. r = Inr x) \<longrightarrow>
            filter is_unlock_step es = [ClearFlashErrors, FlashUnlock, OptionBytesUnlock])"
  using unlock_steps_prefix [OF assms] unlock_prefix_full [of es]
    filter_three [of is_unlock_step es ClearFlashErrors FlashUnlock OptionBytesUnlock]
  by blast

text \<open>A device whose lowest bit is clear: the bit is set by a patch.\<close>

lemma run_b:
  "option_bytes_set (bench image_b mem_b no_fault) ''ob.data'' [] =
     ([Log Info ''Setting Option Bytes'', Start, Reset Init, ClearFlashErrors, FlashUnlock,
       OptionBytesUnlock, Read32 0x1FFF8000 0,
       Log Info ''Need to patch: 1FFF8000: 00000000 != 00000001, REG[0]'',
       Log Info ''Writing 00000001 to 58004020'', Write32 0x58004020 1,
       OptionBytesApply, OptionBytesLoad, Reset Run, Stop],
      Inr True)"
  by (simp add: option_bytes_set_def patch_dword_def run_defs image_b_def mem_b_def)

lemma run_b_unlock_fault:
  "option_bytes_set (bench image_b mem_b unlock_fault) ''ob.data'' [] =
     ([Log Info ''Setting Option Bytes'', Start, Reset Init, ClearFlashErrors],
      Inl (External ''flash unlock failed''))"
  by (simp add: option_bytes_set_def patch_dword_def run_defs image_b_def mem_b_def)

theorem unlock_order_witness:
  "option_bytes_set (bench image_b mem_b no_fault) ''ob.data'' [] =
     ([Log Info ''Setting Option Bytes'', Start, Reset Init, ClearFlashErrors, FlashUnlock,
       OptionBytesUnlock, Read32 0x1FFF8000 0,
       Log Info ''Need to patch: 1FFF8000: 00000000 != 00000001, REG[0]'',
       Log Info ''Writing 00000001 to 58004020'', Write32 0x58004020 1,
       OptionBytesApply, OptionBytesLoad, Reset Run, Stop],
      Inr True)
   \<and> option_bytes_set (bench image_b mem_b unlock_fault) ''ob.data'' [] =
     ([Log Info ''Setting Option Bytes'', Start, Reset Init, ClearFlashErrors],
      Inl (External ''flash unlock failed''))
   \<and> prefix [ClearFlashErrors] [ClearFlashErrors, FlashUnlock, OptionBytesUnlock]"
  using unlock_order [OF run_b] unlock_order [OF run_b_unlock_fault] run_b run_b_unlock_fault
  by simp

lemma from_bytes_little_bounds:
  "0 \<le> from_bytes_little bs \<and> from_bytes_little bs < 256 ^ length bs"
proof (induction bs)
  case Nil
  show ?case by simp
next
  case (Cons b bs)
  have b: "0 \<le> uint b" "uint b < 256"
    using uint_lt2p [of b] by simp_all
  from Cons.IH have "from_bytes_little bs + 1 \<le> 256 ^ length bs"
    by simp
  then have "256 * (from_bytes_little bs + 1) \<le> 256 * 256 ^ length bs"
    by (simp only: mult_le_cancel_left_pos)
  with b Cons.IH show ?case
    by simp
qed

lemma unpack_u32_bounds: "0 \<le> unpack_u32 data offset" "unpack_u32 data offset < 2 ^ 32"
proof -
  let ?bs = "py_slice offset (offset + 4) data"
  have "length ?bs \<le> 4"
    by (simp add: py_slice_def)
  then have "(256::int) ^ length ?bs \<le> 256 ^ 4"
    by (intro power_increasing) simp_all
  with from_bytes_little_bounds [of ?bs]
  show "0 \<le> unpack_u32 data offset" "unpack_u32 data offset < 2 ^ 32"
    by (simp_all add: unpack_u32_def)
qed

lemma patched_value_32_bit:
  fixes live m x :: int
  assumes "0 \<le> live" "live < 2 ^ 32" "0 \<le> m" "0 \<le> x" "x < 2 ^ 32"
  shows "0 \<le> (live AND NOT m) OR (x AND m)"
    and "(live AND NOT m) OR (x AND m) < 2 ^ 32"
    and "(word_of_int ((live AND NOT m) OR (x AND m)) :: 32 word)
           = (word_of_int live AND NOT (word_of_int m)) OR (word_of_int x AND word_of_int m)"
proof -
  from assms have a: "0 \<le> live AND NOT m" "live AND NOT m < 2 ^ 32"
    by simp_all
  from assms have b: "0 \<le> x AND m" "x AND m < 2 ^ 32"
    by simp_all
  from a b show "0 \<le> (live AND NOT m) OR (x AND m)"
    by simp
  from a b show "(live AND NOT m) OR (x AND m) < 2 ^ 32"
    by (intro OR_upper) simp_all
  show "(word_of_int ((live AND NOT m) OR (x AND m)) :: 32 word)
           = (word_of_int live AND NOT (word_of_int m)) OR (word_of_int x AND word_of_int m)"
    by (simp add: of_int_or_eq of_int_and_eq of_int_not_eq)
qed

lemma option_bytes_set_rounds:
  assumes run: "option_bytes_set E file_path h = (es, Inr r)"
    and load: "load_option_bytes E file_path = Inr img"
  shows "list_all2 (dword_round E img) [0..<length (reference img) div 8] (rounds_of es)"
    and "writes_of es = concat (map snd (rounds_of es))"
    and "OptionBytesApply \<in> set es \<longleftrightarrow> writes_of es \<noteq> []"
    and "writes_of es = [] \<longrightarrow> Log Info ''Option Bytes are already correct'' \<in> set es"
    and "\<exists>before. es = before @ [OptionBytesLoad, Reset Run, Stop]
           \<and> OptionBytesLoad \<notin> set before"
proof -
  from run obtain img' les flag where
    load': "load_option_bytes E file_path = Inr img'"
    and loop: "patch_loop E img' [0..<length (reference img') div 8] False
       (h @ [Log Info ''Setting Option Bytes'', Start, Reset Init, ClearFlashErrors,
             FlashUnlock, OptionBytesUnlock]) = (les, Inr flag)"
    and es: "es = [Log Info ''Setting Option Bytes'', Start, Reset Init, ClearFlashErrors,
           FlashUnlock, OptionBytesUnlock] @ les
          @ (if flag then [OptionBytesApply] else [Log Info ''Option Bytes are already correct''])
          @ [OptionBytesLoad, Reset Run, Stop]"
    by (rule option_bytes_set_Inr)
  from load load' have img: "img' = img" by simp
  let ?pre = "[Log Info ''Setting Option Bytes'', Start, Reset Init, ClearFlashErrors,
           FlashUnlock, OptionBytesUnlock]"
  let ?post = "(if flag then [OptionBytesApply] else [Log Info ''Option Bytes are already correct''])
          @ [OptionBytesLoad, Reset Run, Stop]"
  from patch_loop_Inr [OF loop] have
    rounds: "list_all2 (dword_round E img) [0..<length (reference img) div 8] (rounds_of les)"
    and events: "\<forall>e \<in> set les. is_patch_event e"
    and writes: "writes_of les = concat (map snd (rounds_of les))"
    and flag: "flag \<longleftrightarrow> writes_of les \<noteq> []"
    unfolding img by simp_all
  have post: "\<forall>e \<in> set ?post. \<not> is_read e" "writes_of ?post = []"
    by simp_all
  have "rounds_of es = rounds_of (les @ ?post)"
    unfolding es by (rule rounds_of_skip) simp
  also have "\<dots> = rounds_of les"
    using post by (rule rounds_of_quiet_tail)
  finally have r: "rounds_of es = rounds_of les" .
  have w: "writes_of es = writes_of les"
    unfolding es by (simp add: writes_of_append)
  have no_cmd: "OptionBytesApply \<notin> set les" "OptionBytesLoad \<notin> set les"
    using events by auto
  show "list_all2 (dword_round E img) [0..<length (reference img) div 8] (rounds_of es)"
    using rounds r by simp
  show "writes_of es = concat (map snd (rounds_of es))"
    using writes r w by simp
  show "OptionBytesApply \<in> set es \<longleftrightarrow> writes_of es \<noteq> []"
    using no_cmd flag w by (simp add: es)
  show "writes_of es = [] \<longrightarrow> Log Info ''Option Bytes are already correct'' \<in> set es"
    using flag w by (simp add: es)
  show "\<exists>before. es = before @ [OptionBytesLoad, Reset Run, Stop]
           \<and> OptionBytesLoad \<notin> set before"
    using no_cmd
    by (intro exI [of _ "?pre @ les @ (if flag then [OptionBytesApply]
          else [Log Info ''Option Bytes are already correct''])"]) (simp add: es)
qed

lemma unpack_u32_little_endian:
  assumes "offset + 4 \<le> length data"
  shows "unpack_u32 data offset =
           uint (data ! offset) + 256 * uint (data ! (offset + 1))
             + 65536 * uint (data ! (offset + 2)) + 16777216 * uint (data ! (offset + 3))"
proof -
  from assms have "take 4 (drop offset data) =
      [data ! offset, data ! (offset + 1), data ! (offset + 2), data ! (offset + 3)]"
    by (auto simp: list_eq_iff_nth_eq nth_Cons' less_Suc_eq numeral_eq_Suc)
  then show ?thesis
    by (simp add: unpack_u32_def py_slice_def)
qed

lemma dword_roundD:
  assumes "dword_round E img i ((a, live), ws)"
  shows "a = OPTION_BYTE_BASE E + int i * 8"
    and "ws \<noteq> [] \<longleftrightarrow>
           ((live AND unpack_u32 (compare_mask img) (i * 8)) XOR unpack_u32 (reference img) (i * 8))
             AND unpack_u32 (write_mask img) (i * 8) \<noteq> 0"
    and "ws \<noteq> [] \<Longrightarrow> \<exists>reg. option_bytes_id_to_address E i = Inr reg \<and>
           ws = [(reg, (live AND NOT (unpack_u32 (write_mask img) (i * 8)))
                         OR (unpack_u32 (reference img) (i * 8)
                               AND unpack_u32 (write_mask img) (i * 8)))]"
  using assms unfolding dword_round_def
  by (cases "option_bytes_id_to_address E i"; simp add: Let_def split: if_splits)+

lemma option_bytes_set_round:
  assumes "option_bytes_set E file_path h = (es, Inr r)"
    and "load_option_bytes E file_path = Inr img"
    and "i < length (reference img) div 8"
  shows "length (rounds_of es) = length (reference img) div 8"
    and "dword_round E img i (rounds_of es ! i)"
proof -
  from option_bytes_set_rounds(1) [OF assms(1,2)]
  have all: "list_all2 (dword_round E img) [0..<length (reference img) div 8] (rounds_of es)" .
  then show len: "length (rounds_of es) = length (reference img) div 8"
    by (simp add: list_all2_lengthD [symmetric])
  from assms(3) have "dword_round E img ([0..<length (reference img) div 8] ! i) (rounds_of es ! i)"
    by (intro list_all2_nthD [OF all]) simp
  with assms(3) show "dword_round E img i (rounds_of es ! i)"
    by simp
qed

lemma bench_load: "load_option_bytes (bench img mem rs) ''ob.data'' = Inr img"
  by (simp add: bench_simps)

text \<open>The device that reads \<open>0x5A\<close>: the first dword is patched, the second is not.\<close>

lemma run_a:
  "option_bytes_set (bench image_a mem_a no_fault) ''ob.data'' [] =
     ([Log Info ''Setting Option Bytes'', Start, Reset Init, ClearFlashErrors, FlashUnlock,
       OptionBytesUnlock, Read32 0x1FFF8000 0x5A,
       Log Info ''Need to patch: 1FFF8000: 00000050 != 000000A0, REG[0]'',
       Log Info ''Writing 000000AA to 58004020'', Write32 0x58004020 0xAA,
       Read32 0x1FFF8008 0x0F, OptionBytesApply, OptionBytesLoad, Reset Run, Stop],
      Inr True)"
  by (simp add: option_bytes_set_def patch_dword_def run_defs image_a_def mem_a_def)

text \<open>The same device after the patch: nothing is written.\<close>

lemma run_a':
  "option_bytes_set (bench image_a mem_a' no_fault) ''ob.data'' [] =
     ([Log Info ''Setting Option Bytes'', Start, Reset Init, ClearFlashErrors, FlashUnlock,
       OptionBytesUnlock, Read32 0x1FFF8000 0xAA, Read32 0x1FFF8008 0x0F,
       Log Info ''Option Bytes are already correct'', OptionBytesLoad, Reset Run, Stop],
      Inr True)"
  by (simp add: option_bytes_set_def patch_dword_def run_defs image_a_def mem_a'_def)

lemma image_a_dwords:
  "length (reference image_a) div 8 = 2"
  "unpack_u32 (write_mask image_a) (0 * 8) = 0xF0"
  "unpack_u32 (compare_mask image_a) (0 * 8) = 0xF0"
  "unpack_u32 (reference image_a) (0 * 8) = 0xA0"
  "unpack_u32 (write_mask image_a) (1 * 8) = 0"
  "unpack_u32 (compare_mask image_a) (1 * 8) = 0xFF"
  "unpack_u32 (reference image_a) (1 * 8) = 0x0F"
  by (simp_all add: image_a_def unpack_u32_def py_slice_def)

text \<open>
  C1. In a run of \<open>option_bytes_set\<close> that returns, the patch loop makes one pass for
  each dword index \<open>i\<close> below \<open>length / 8\<close>: it reads the live value at
  \<open>OPTION_BYTE_BASE + i * 8\<close>, and it patches (writes a register) exactly if
  \<open>((live AND compare_mask_i) XOR reference_i) AND write_mask_i\<close> is not zero, where the
  three values are unpacked from byte offset \<open>i * 8\<close> of their buffers, which is the
  little-endian value of the four bytes there. In particular nothing is written for a
  dword whose write mask is zero.
\<close>

theorem patch_decision:
  assumes "option_bytes_set E file_path h = (es, Inr r)"
    and "load_option_bytes E file_path = Inr img"
    and "i < length (reference img) div 8"
  shows "length (rounds_of es) = length (reference img) div 8 \<and>
     (let live = snd (fst (rounds_of es ! i));
          writes = snd (rounds_of es ! i);
          write_mask_i = unpack_u32 (write_mask img) (i * 8);
          compare_mask_i = unpack_u32 (compare_mask img) (i * 8);
          reference_i = unpack_u32 (reference img) (i * 8)
      in fst (fst (rounds_of es ! i)) = OPTION_BYTE_BASE E + int i * 8 \<and>
         (writes \<noteq> [] \<longleftrightarrow> ((live AND compare_mask_i) XOR reference_i) AND write_mask_i \<noteq> 0) \<and>
         (write_mask_i = 0 \<longrightarrow> writes = [])) \<and>
     (\<forall>buf. i * 8 + 4 \<le> length buf \<longrightarrow>
        unpack_u32 buf (i * 8) =
          uint (buf ! (i * 8)) + 256 * uint (buf ! (i * 8 + 1))
            + 65536 * uint (buf ! (i * 8 + 2)) + 16777216 * uint (buf ! (i * 8 + 3)))"
proof -
  obtain a live ws where rnd: "rounds_of es ! i = ((a, live), ws)"
    by (metis surj_pair)
  from option_bytes_set_round [OF assms] rnd
  have len: "length (rounds_of es) = length (reference img) div 8"
    and round: "dword_round E img i ((a, live), ws)"
    by simp_all
  from dword_roundD(1,2) [OF round] len show ?thesis
    by (auto simp: rnd Let_def unpack_u32_little_endian)
qed

theorem patch_decision_witness:
  "option_bytes_set (bench image_a mem_a no_fault) ''ob.data'' [] =
     ([Log Info ''Setting Option Bytes'', Start, Reset Init, ClearFlashErrors, FlashUnlock,
       OptionBytesUnlock, Read32 0x1FFF8000 0x5A,
       Log Info ''Need to patch: 1FFF8000: 00000050 != 000000A0, REG[0]'',
       Log Info ''Writing 000000AA to 58004020'', Write32 0x58004020 0xAA,
       Read32 0x1FFF8008 0x0F, OptionBytesApply, OptionBytesLoad, Reset Run, Stop],
      Inr True)
   \<and> ((0x5A AND 0xF0) XOR 0xA0) AND 0xF0 \<noteq> (0 :: int)
   \<and> unpack_u32 (write_mask image_a) (1 * 8) = 0"
proof -
  have i: "0 < length (reference image_a) div 8" "1 < length (reference image_a) div 8"
    by (simp_all add: image_a_dwords)
  from patch_decision [OF run_a bench_load i(1)] patch_decision [OF run_a bench_load i(2)]
    run_a image_a_dwords
  show ?thesis
    by (simp add: Let_def)
qed

lemma patch_dword_any:
  assumes "patch_dword E img i flag h = (es, r)"
  defines "a \<equiv> OPTION_BYTE_BASE E + int i * 8"
  shows "es = [] \<or>
         (es = Read32 a (read_32_value E h a) # tl es
            \<and> (\<forall>e \<in> set (tl es). \<not> is_read e)
            \<and> dword_attempt E img i ((a, read_32_value E h a), writes_of (tl es)))"
proof (cases r)
  case (Inr f)
  with assms(1) patch_dword_Inr [of E img i flag h es f] show ?thesis
    by (simp add: dword_attempt_def a_def)
next
  case (Inl err)
  with assms(1) show ?thesis
    unfolding patch_dword_def dword_attempt_def a_def
    by (auto simp: Let_def io_then_def run_iffs command_defs split: if_splits)
qed

lemma patch_loop_any:
  assumes "patch_loop E img is flag h = (les, r)"
  shows "(\<exists>k \<le> length is. list_all2 (dword_attempt E img) (take k is) (rounds_of les))
           \<and> takeWhile (\<lambda>e. \<not> is_read e) les = []"
  using assms
proof (induction "is" arbitrary: flag h les)
  case Nil
  then show ?case by (simp add: io_return_iff)
next
  case (Cons i "is")
  define a where "a = OPTION_BYTE_BASE E + int i * 8"
  define v where "v = read_32_value E h a"
  from Cons.prems have "io_bind (patch_dword E img i flag) (\<lambda>f. patch_loop E img is f) h = (les, r)"
    by simp
  then show ?case
  proof (cases rule: io_bindE)
    case (raised e)
    from patch_dword_any [OF raised(1)] show ?thesis
    proof
      assume "les = []"
      then show ?thesis by simp
    next
      assume *: "les = Read32 (OPTION_BYTE_BASE E + int i * 8)
                   (read_32_value E h (OPTION_BYTE_BASE E + int i * 8)) # tl les
            \<and> (\<forall>e \<in> set (tl les). \<not> is_read e)
            \<and> dword_attempt E img i ((OPTION_BYTE_BASE E + int i * 8,
                   read_32_value E h (OPTION_BYTE_BASE E + int i * 8)), writes_of (tl les))"
      then have shape: "les = Read32 a v # tl les" and quiet: "\<forall>e \<in> set (tl les). \<not> is_read e"
        and att: "dword_attempt E img i ((a, v), writes_of (tl les))"
        unfolding a_def v_def by simp_all
      have tw: "takeWhile (\<lambda>e. \<not> is_read e) (tl les) = tl les"
        using quiet by (simp add: takeWhile_eq_all_conv)
      have "rounds_of (tl les) = []"
        using rounds_of_skip [OF quiet, of "[]"] by simp
      then have rs: "rounds_of les = [((a, v), writes_of (tl les))]"
        by (subst shape) (simp add: tw)
      have "list_all2 (dword_attempt E img) (take 1 (i # is)) (rounds_of les)"
        using att by (simp add: rs)
      moreover have "takeWhile (\<lambda>e. \<not> is_read e) les = []"
        by (subst shape) simp
      ultimately show ?thesis
        by (intro conjI exI [of _ 1]) simp_all
    qed
  next
    case (went_on es1 f1 es2)
    from patch_dword_Inr [OF went_on(1)] have
      es1: "es1 = Read32 a v # tl es1"
      and quiet: "\<forall>e \<in> set (tl es1). \<not> is_read e \<and> is_patch_event e"
      and round: "dword_round E img i ((a, v), writes_of (tl es1))"
      unfolding a_def v_def by simp_all
    from Cons.IH [OF went_on(2)] obtain k where
      k: "k \<le> length is" "list_all2 (dword_attempt E img) (take k is) (rounds_of es2)"
      and ih_head: "takeWhile (\<lambda>e. \<not> is_read e) es2 = []"
      by blast
    have shape: "les = Read32 a v # tl es1 @ es2"
      using went_on(3) es1 by (metis append_Cons)
    have tw: "takeWhile (\<lambda>e. \<not> is_read e) (tl es1 @ es2) = tl es1"
      using quiet ih_head by (simp add: takeWhile_append2)
    have rs: "rounds_of les = ((a, v), writes_of (tl es1)) # rounds_of es2"
      using quiet by (simp add: shape tw rounds_of_skip)
    have "list_all2 (dword_attempt E img) (take (Suc k) (i # is)) (rounds_of les)"
      using round k(2) by (simp add: rs dword_attempt_def)
    moreover have "takeWhile (\<lambda>e. \<not> is_read e) les = []"
      by (simp add: shape)
    ultimately show ?thesis
      using k(1) by (intro conjI exI [of _ "Suc k"]) simp_all
  qed
qed

lemma rounds_of_quiet_tail':
  "\<forall>e \<in> set ys. \<not> is_read e \<Longrightarrow> writes_of ys = [] \<Longrightarrow> rounds_of (xs @ ys) = rounds_of xs"
  by (rule rounds_of_quiet_tail)

lemma option_bytes_set_any:
  assumes run: "option_bytes_set E file_path h = (es, r)"
    and load: "load_option_bytes E file_path = Inr img"
  shows "\<exists>k \<le> length (reference img) div 8.
           list_all2 (dword_attempt E img) (take k [0..<length (reference img) div 8])
             (rounds_of es)"
proof (cases r)
  case (Inr x)
  from option_bytes_set_rounds(1) [OF run [unfolded Inr] load]
  have "list_all2 (dword_attempt E img) [0..<length (reference img) div 8] (rounds_of es)"
    by (rule list_all2_mono) (simp add: dword_attempt_def)
  then show ?thesis
    by (intro exI [of _ "length (reference img) div 8"]) simp
next
  case (Inl err)
  have none: "\<exists>k \<le> n. list_all2 (dword_attempt E img) (take k [0..<n]) []" for n
    by (intro exI [of _ 0]) simp
  have whole: "\<exists>k \<le> n. list_all2 (dword_attempt E img) (take k [0..<n]) rs"
    if "list_all2 (dword_round E img) [0..<n] rs" for n rs
  proof -
    from that have "list_all2 (dword_attempt E img) [0..<n] rs"
      by (rule list_all2_mono) (simp add: dword_attempt_def)
    then show ?thesis by (intro exI [of _ n]) simp
  qed
  from run load Inl show ?thesis
    unfolding option_bytes_set_def
    by (auto simp: Let_def io_then_def run_iffs command_defs none rounds_of_quiet_tail'
        split: if_splits dest!: patch_loop_any patch_loop_Inr intro: whole)
qed

text \<open>
  C2. Whenever a run of \<open>option_bytes_set\<close>, returning or raising, has written in its
  \<open>i\<close>-th pass the value \<open>new_value\<close> to the register \<open>reg\<close>, this is the only write
  of the pass, the pass is that of the dword \<open>i\<close>, \<open>reg\<close> is the register of \<open>i\<close>, and
  \<open>new_value = (live AND NOT write_mask_i) OR (reference_i AND write_mask_i)\<close>. So the
  bits outside the write mask are those of the live value and the bits inside are those
  of the reference. For a live value of 32 bits the result has 32 bits and is the same
  expression computed on 32-bit words.
\<close>

theorem patch_value:
  assumes "option_bytes_set E file_path h = (es, r)"
    and "load_option_bytes E file_path = Inr img"
    and "i < length (rounds_of es)"
    and "(reg, new_value) \<in> set (snd (rounds_of es ! i))"
  shows
    "(let live = snd (fst (rounds_of es ! i));
          write_mask_i = unpack_u32 (write_mask img) (i * 8);
          reference_i = unpack_u32 (reference img) (i * 8)
      in i < length (reference img) div 8 \<and>
         fst (fst (rounds_of es ! i)) = OPTION_BYTE_BASE E + int i * 8 \<and>
         option_bytes_id_to_address E i = Inr reg \<and>
         snd (rounds_of es ! i) = [(reg, new_value)] \<and>
         new_value = (live AND NOT write_mask_i) OR (reference_i AND write_mask_i) \<and>
         new_value AND NOT write_mask_i = live AND NOT write_mask_i \<and>
         new_value AND write_mask_i = reference_i AND write_mask_i \<and>
         (0 \<le> live \<and> live < 2 ^ 32 \<longrightarrow>
            0 \<le> new_value \<and> new_value < 2 ^ 32 \<and>
            (word_of_int new_value :: 32 word) =
              (word_of_int live AND NOT (word_of_int write_mask_i))
                OR (word_of_int reference_i AND word_of_int write_mask_i)))"
proof -
  let ?n = "length (reference img) div 8"
  from option_bytes_set_any [OF assms(1,2)] obtain k where
    k: "k \<le> ?n" and all: "list_all2 (dword_attempt E img) (take k [0..<?n]) (rounds_of es)"
    by blast
  from all have len: "length (rounds_of es) = k"
    using k by (simp add: list_all2_lengthD [symmetric])
  with assms(3) k have i: "i < ?n" "i < k"
    by simp_all
  obtain a live ws where rnd: "rounds_of es ! i = ((a, live), ws)"
    by (metis surj_pair)
  from i k have "dword_attempt E img (take k [0..<?n] ! i) (rounds_of es ! i)"
    by (intro list_all2_nthD [OF all]) simp
  with i have att: "dword_attempt E img i ((a, live), ws)"
    by (simp add: rnd)
  from assms(4) rnd have ne: "ws \<noteq> []" by auto
  with att have round: "dword_round E img i ((a, live), ws)"
    by (simp add: dword_attempt_def)
  from dword_roundD(3) [OF round ne] assms(4) rnd
  have reg: "option_bytes_id_to_address E i = Inr reg"
    and ws: "ws = [(reg, new_value)]"
    and nv: "new_value = (live AND NOT (unpack_u32 (write_mask img) (i * 8)))
                         OR (unpack_u32 (reference img) (i * 8)
                               AND unpack_u32 (write_mask img) (i * 8))"
    by auto
  have keep: "((l AND NOT m) OR (x AND m)) AND NOT m = l AND NOT m"
    and take: "((l AND NOT m) OR (x AND m)) AND m = x AND m" for l m x :: int
    by (auto simp: bit_eq_iff bit_simps)
  note w = patched_value_32_bit [of live "unpack_u32 (write_mask img) (i * 8)"
      "unpack_u32 (reference img) (i * 8)", OF _ _ unpack_u32_bounds(1) unpack_u32_bounds]
  show ?thesis
    using reg ws w i(1) dword_roundD(1) [OF round]
    by (simp add: rnd Let_def nv keep take)
qed

theorem patch_value_witness:
  "snd (rounds_of (fst (option_bytes_set (bench image_a mem_a no_fault) ''ob.data'' []))
         ! 0) = [(0x58004020, 0xAA)]
   \<and> (0xAA :: int) = (0x5A AND NOT 0xF0) OR (0xA0 AND 0xF0)
   \<and> (0xAA :: int) AND NOT 0xF0 = 0x5A AND NOT 0xF0
   \<and> (0xAA :: int) AND 0xF0 = 0xA0 AND 0xF0
   \<and> (0xAA :: 32 word) = (0x5A AND NOT 0xF0) OR (0xA0 AND 0xF0)"
proof -
  have i: "0 < length (rounds_of
      [Log Info ''Setting Option Bytes'', Start, Reset Init, ClearFlashErrors, FlashUnlock,
       OptionBytesUnlock, Read32 0x1FFF8000 0x5A,
       Log Info ''Need to patch: 1FFF8000: 00000050 != 000000A0, REG[0]'',
       Log Info ''Writing 000000AA to 58004020'', Write32 0x58004020 0xAA,
       Read32 0x1FFF8008 0x0F, OptionBytesApply, OptionBytesLoad, Reset Run, Stop])"
    by simp
  have w: "(0x58004020, 0xAA) \<in> set (snd (rounds_of
      [Log Info ''Setting Option Bytes'', Start, Reset Init, ClearFlashErrors, FlashUnlock,
       OptionBytesUnlock, Read32 0x1FFF8000 0x5A,
       Log Info ''Need to patch: 1FFF8000: 00000050 != 000000A0, REG[0]'',
       Log Info ''Writing 000000AA to 58004020'', Write32 0x58004020 0xAA,
       Read32 0x1FFF8008 0x0F, OptionBytesApply, OptionBytesLoad, Reset Run, Stop] ! 0))"
    by simp
  from patch_value [OF run_a bench_load i w] image_a_dwords
  show ?thesis
    by (simp add: Let_def run_a)
qed

lemma writes_nonempty_iff:
  assumes "option_bytes_set E file_path h = (es, Inr r)"
    and "load_option_bytes E file_path = Inr img"
  shows "writes_of es \<noteq> [] \<longleftrightarrow>
     (\<exists>i < length (reference img) div 8.
        ((snd (fst (rounds_of es ! i)) AND unpack_u32 (compare_mask img) (i * 8))
           XOR unpack_u32 (reference img) (i * 8))
          AND unpack_u32 (write_mask img) (i * 8) \<noteq> 0)"
proof -
  let ?n = "length (reference img) div 8"
  have len: "length (rounds_of es) = ?n"
    using option_bytes_set_rounds(1) [OF assms] by (simp add: list_all2_lengthD [symmetric])
  have each: "snd (rounds_of es ! i) \<noteq> [] \<longleftrightarrow>
        ((snd (fst (rounds_of es ! i)) AND unpack_u32 (compare_mask img) (i * 8))
           XOR unpack_u32 (reference img) (i * 8))
          AND unpack_u32 (write_mask img) (i * 8) \<noteq> 0" if "i < ?n" for i
  proof -
    obtain a live ws where rnd: "rounds_of es ! i = ((a, live), ws)"
      by (metis surj_pair)
    from option_bytes_set_round(2) [OF assms that] rnd
    have "dword_round E img i ((a, live), ws)" by simp
    from dword_roundD(2) [OF this] show ?thesis by (simp add: rnd)
  qed
  have "writes_of es \<noteq> [] \<longleftrightarrow> (\<exists>rnd \<in> set (rounds_of es). snd rnd \<noteq> [])"
    by (auto simp: option_bytes_set_rounds(2) [OF assms])
  also have "\<dots> \<longleftrightarrow> (\<exists>i < ?n. snd (rounds_of es ! i) \<noteq> [])"
    by (metis len in_set_conv_nth nth_mem)
  also have "\<dots> \<longleftrightarrow> (\<exists>i < ?n.
        ((snd (fst (rounds_of es ! i)) AND unpack_u32 (compare_mask img) (i * 8))
           XOR unpack_u32 (reference img) (i * 8))
          AND unpack_u32 (write_mask img) (i * 8) \<noteq> 0)"
    using each by blast
  finally show ?thesis .
qed

lemma apply_iff_patched_run:
  assumes "option_bytes_set E file_path h = (es, Inr r)"
    and "load_option_bytes E file_path = Inr img"
  shows "(OptionBytesApply \<in> set es \<longleftrightarrow>
           (\<exists>i < length (reference img) div 8.
              ((snd (fst (rounds_of es ! i)) AND unpack_u32 (compare_mask img) (i * 8))
                 XOR unpack_u32 (reference img) (i * 8))
                AND unpack_u32 (write_mask img) (i * 8) \<noteq> 0)) \<and>
         (\<exists>before. es = before @ [OptionBytesLoad, Reset Run, Stop]
            \<and> OptionBytesLoad \<notin> set before
            \<and> reads_of before = reads_of es \<and> writes_of before = writes_of es) \<and>
         (OptionBytesApply \<notin> set es \<longrightarrow>
            writes_of es = [] \<and> Log Info ''Option Bytes are already correct'' \<in> set es)"
proof -
  from option_bytes_set_rounds(5) [OF assms] obtain before where
    b: "es = before @ [OptionBytesLoad, Reset Run, Stop]" "OptionBytesLoad \<notin> set before"
    by blast
  then have "reads_of before = reads_of es \<and> writes_of before = writes_of es"
    by (simp add: reads_of_append writes_of_append)
  with b have "\<exists>before. es = before @ [OptionBytesLoad, Reset Run, Stop]
            \<and> OptionBytesLoad \<notin> set before
            \<and> reads_of before = reads_of es \<and> writes_of before = writes_of es"
    by blast
  moreover have "OptionBytesApply \<in> set es \<longleftrightarrow>
           (\<exists>i < length (reference img) div 8.
              ((snd (fst (rounds_of es ! i)) AND unpack_u32 (compare_mask img) (i * 8))
                 XOR unpack_u32 (reference img) (i * 8))
                AND unpack_u32 (write_mask img) (i * 8) \<noteq> 0)"
    using option_bytes_set_rounds(3) [OF assms] writes_nonempty_iff [OF assms] by blast
  moreover have "OptionBytesApply \<notin> set es \<longrightarrow>
            writes_of es = [] \<and> Log Info ''Option Bytes are already correct'' \<in> set es"
    using option_bytes_set_rounds(3,4) [OF assms] by blast
  ultimately show ?thesis by blast
qed

lemma interact_quiet:
  "\<forall>h e. raises E h e = None \<Longrightarrow> interact E e h = ([e], Inr ())"
  by (simp add: interact_def)

lemma patch_dword_returns:
  assumes nr: "\<forall>h e. raises E h e = None"
    and reg: "option_bytes_id_to_address E i = Inr reg"
  shows "\<exists>es f. patch_dword E img i flag h = (es, Inr f)"
  unfolding patch_dword_def
  by (auto simp: Let_def io_bind_def io_then_def openocd_read_32_def interact_quiet [OF nr]
      logger_def io_lift_def io_return_def command_defs reg)

lemma patch_loop_returns:
  assumes nr: "\<forall>h e. raises E h e = None"
    and regs: "\<forall>i \<in> set is. \<exists>reg. option_bytes_id_to_address E i = Inr reg"
  shows "\<exists>es f. patch_loop E img is flag h = (es, Inr f)"
  using regs
proof (induction "is" arbitrary: flag h)
  case Nil
  show ?case by (simp add: io_return_def)
next
  case (Cons i "is")
  from Cons.prems obtain reg where "option_bytes_id_to_address E i = Inr reg"
    by auto
  from patch_dword_returns [OF nr this] obtain es1 f1 where
    1: "patch_dword E img i flag h = (es1, Inr f1)"
    by blast
  from Cons.IH [of f1 "h @ es1"] Cons.prems obtain es2 f2 where
    2: "patch_loop E img is f1 (h @ es1) = (es2, Inr f2)"
    by auto
  from 1 2 show ?case
    by (simp add: io_bind_def)
qed

lemma option_bytes_set_returns:
  assumes nr: "\<forall>h e. raises E h e = None"
    and load: "load_option_bytes E file_path = Inr img"
    and regs: "\<forall>i < length (reference img) div 8. \<exists>reg. option_bytes_id_to_address E i = Inr reg"
  shows "\<exists>es. option_bytes_set E file_path h = (es, Inr True)"
proof -
  from regs have "\<forall>i \<in> set [0..<length (reference img) div 8].
      \<exists>reg. option_bytes_id_to_address E i = Inr reg"
    by simp
  from patch_loop_returns [OF nr this] obtain les f where
    "patch_loop E img [0..<length (reference img) div 8] False
       (h @ [Log Info ''Setting Option Bytes'', Start, Reset Init, ClearFlashErrors,
             FlashUnlock, OptionBytesUnlock]) = (les, Inr f)"
    by blast
  then show ?thesis
    unfolding option_bytes_set_def
    by (simp add: io_then_def io_bind_def command_defs interact_quiet [OF nr] io_lift_def load
        Let_def logger_def io_return_def)
qed

text \<open>
  C4. In a run of \<open>option_bytes_set\<close> that returns, the apply command is issued exactly
  if some dword needed a patch. The load command is issued in every such run, once, after
  the patch loop (after every read and every write) and followed only by the reset to run
  and the stop of the session. When no dword needed a patch, the run writes no register
  and logs that the option bytes are already correct. And the run does return whenever no
  interaction raises and every dword has a register.
\<close>

theorem apply_iff_patched:
  assumes "load_option_bytes E file_path = Inr img"
  shows "(\<forall>es r. option_bytes_set E file_path h = (es, Inr r) \<longrightarrow>
            (OptionBytesApply \<in> set es \<longleftrightarrow>
               (\<exists>i < length (reference img) div 8.
                  ((snd (fst (rounds_of es ! i)) AND unpack_u32 (compare_mask img) (i * 8))
                     XOR unpack_u32 (reference img) (i * 8))
                    AND unpack_u32 (write_mask img) (i * 8) \<noteq> 0)) \<and>
            (\<exists>before. es = before @ [OptionBytesLoad, Reset Run, Stop]
               \<and> OptionBytesLoad \<notin> set before
               \<and> reads_of before = reads_of es \<and> writes_of before = writes_of es) \<and>
            (OptionBytesApply \<notin> set es \<longrightarrow>
               writes_of es = [] \<and> Log Info ''Option Bytes are already correct'' \<in> set es)) \<and>
         ((\<forall>h e. raises E h e = None) \<and>
          (\<forall>i < length (reference img) div 8. \<exists>reg. option_bytes_id_to_address E i = Inr reg)
            \<longrightarrow> (\<exists>es. option_bytes_set E file_path h = (es, Inr True)))"
  using apply_iff_patched_run [OF _ assms] option_bytes_set_returns [OF _ assms]
  by blast

theorem apply_iff_patched_witness:
  "option_bytes_set (bench image_a mem_a' no_fault) ''ob.data'' [] =
     ([Log Info ''Setting Option Bytes'', Start, Reset Init, ClearFlashErrors, FlashUnlock,
       OptionBytesUnlock, Read32 0x1FFF8000 0xAA, Read32 0x1FFF8008 0x0F,
       Log Info ''Option Bytes are already correct'', OptionBytesLoad, Reset Run, Stop],
      Inr True)
   \<and> OptionBytesApply \<in> set (fst (option_bytes_set (bench image_a mem_a no_fault) ''ob.data'' []))
   \<and> writes_of (fst (option_bytes_set (bench image_a mem_a no_fault) ''ob.data'' []))
       = [(0x58004020, 0xAA)]"
  using apply_iff_patched [OF bench_load, of image_a mem_a' no_fault "[]", THEN conjunct1,
      rule_format, OF run_a']
    apply_iff_patched [OF bench_load, of image_a mem_a no_fault "[]", THEN conjunct1,
      rule_format, OF run_a]
    run_a run_a'
  by simp

lemma patched_value_settles:
  fixes l m c x :: int
  assumes "x AND m AND NOT c = 0"
  shows "((((l AND NOT m) OR (x AND m)) AND c) XOR x) AND m = 0"
  using assms by (auto simp: bit_eq_iff bit_simps)

text \<open>
  C6. Two runs of \<open>option_bytes_set\<close> with the same image, both returning. Suppose that
  in the second run each dword that the first run patched reads back as the value the
  first run wrote, and every other dword as the first run read it. Suppose also that in
  each dword every writable bit that is set in the reference is a compared bit
  (\<open>reference_i AND write_mask_i AND NOT compare_mask_i = 0\<close>). Then no dword needs a
  patch in the second run: it writes no register and does not issue the apply command.
\<close>

theorem second_run_writes_nothing:
  assumes run1: "option_bytes_set E1 file_path1 h1 = (es1, Inr r1)"
    and load1: "load_option_bytes E1 file_path1 = Inr img"
    and run2: "option_bytes_set E2 file_path2 h2 = (es2, Inr r2)"
    and load2: "load_option_bytes E2 file_path2 = Inr img"
    and effect: "\<forall>i < length (reference img) div 8.
        snd (fst (rounds_of es2 ! i)) =
          (case snd (rounds_of es1 ! i) of
             [] \<Rightarrow> snd (fst (rounds_of es1 ! i))
           | (reg, new_value) # ws \<Rightarrow> new_value)"
    and covered: "\<forall>i < length (reference img) div 8.
        unpack_u32 (reference img) (i * 8) AND unpack_u32 (write_mask img) (i * 8)
          AND NOT (unpack_u32 (compare_mask img) (i * 8)) = 0"
  shows "writes_of es2 = [] \<and> OptionBytesApply \<notin> set es2 \<and>
         (\<forall>i < length (reference img) div 8.
            ((snd (fst (rounds_of es2 ! i)) AND unpack_u32 (compare_mask img) (i * 8))
               XOR unpack_u32 (reference img) (i * 8))
              AND unpack_u32 (write_mask img) (i * 8) = 0)"
proof -
  let ?n = "length (reference img) div 8"
  have settled: "((snd (fst (rounds_of es2 ! i)) AND unpack_u32 (compare_mask img) (i * 8))
               XOR unpack_u32 (reference img) (i * 8))
              AND unpack_u32 (write_mask img) (i * 8) = 0" if i: "i < ?n" for i
  proof -
    obtain a live ws where rnd: "rounds_of es1 ! i = ((a, live), ws)"
      by (metis surj_pair)
    from option_bytes_set_round(2) [OF run1 load1 i] rnd
    have round: "dword_round E1 img i ((a, live), ws)" by simp
    from covered i have c: "unpack_u32 (reference img) (i * 8) AND unpack_u32 (write_mask img) (i * 8)
          AND NOT (unpack_u32 (compare_mask img) (i * 8)) = 0"
      by simp
    show ?thesis
    proof (cases "ws = []")
      case True
      with effect i rnd have "snd (fst (rounds_of es2 ! i)) = live"
        by simp
      with dword_roundD(2) [OF round] True show ?thesis
        by simp
    next
      case False
      from dword_roundD(3) [OF round False] obtain reg where
        ws: "ws = [(reg, (live AND NOT (unpack_u32 (write_mask img) (i * 8)))
                         OR (unpack_u32 (reference img) (i * 8)
                               AND unpack_u32 (write_mask img) (i * 8)))]"
        by blast
      with effect i rnd have "snd (fst (rounds_of es2 ! i)) =
          (live AND NOT (unpack_u32 (write_mask img) (i * 8)))
                         OR (unpack_u32 (reference img) (i * 8)
                               AND unpack_u32 (write_mask img) (i * 8))"
        by simp
      with patched_value_settles [OF c, of live] show ?thesis
        by simp
    qed
  qed
  with writes_nonempty_iff [OF run2 load2] have "writes_of es2 = []"
    by blast
  with option_bytes_set_rounds(3) [OF run2 load2] settled show ?thesis
    by simp
qed

lemma run_b':
  "option_bytes_set (bench image_b mem_b' no_fault) ''ob.data'' [] =
     ([Log Info ''Setting Option Bytes'', Start, Reset Init, ClearFlashErrors, FlashUnlock,
       OptionBytesUnlock, Read32 0x1FFF8000 1,
       Log Info ''Need to patch: 1FFF8000: 00000000 != 00000001, REG[0]'',
       Log Info ''Writing 00000001 to 58004020'', Write32 0x58004020 1,
       OptionBytesApply, OptionBytesLoad, Reset Run, Stop],
      Inr True)"
  by (simp add: option_bytes_set_def patch_dword_def run_defs image_b_def mem_b'_def)

theorem second_run_writes_nothing_witness:
  "option_bytes_set (bench image_a mem_a no_fault) ''ob.data'' [] =
     ([Log Info ''Setting Option Bytes'', Start, Reset Init, ClearFlashErrors, FlashUnlock,
       OptionBytesUnlock, Read32 0x1FFF8000 0x5A,
       Log Info ''Need to patch: 1FFF8000: 00000050 != 000000A0, REG[0]'',
       Log Info ''Writing 000000AA to 58004020'', Write32 0x58004020 0xAA,
       Read32 0x1FFF8008 0x0F, OptionBytesApply, OptionBytesLoad, Reset Run, Stop],
      Inr True)
   \<and> mem_a' 0x1FFF8000 = 0xAA \<and> mem_a' 0x1FFF8008 = mem_a 0x1FFF8008
   \<and> writes_of (fst (option_bytes_set (bench image_a mem_a' no_fault) ''ob.data'' [])) = []
   \<and> snd (option_bytes_set (bench image_a mem_a' no_fault) ''ob.data'' []) = Inr True"
proof -
  let ?es1 = "[Log Info ''Setting Option Bytes'', Start, Reset Init, ClearFlashErrors, FlashUnlock,
       OptionBytesUnlock, Read32 0x1FFF8000 0x5A,
       Log Info ''Need to patch: 1FFF8000: 00000050 != 000000A0, REG[0]'',
       Log Info ''Writing 000000AA to 58004020'', Write32 0x58004020 0xAA,
       Read32 0x1FFF8008 0x0F, OptionBytesApply, OptionBytesLoad, Reset Run, Stop]"
  let ?es2 = "[Log Info ''Setting Option Bytes'', Start, Reset Init, ClearFlashErrors, FlashUnlock,
       OptionBytesUnlock, Read32 0x1FFF8000 0xAA, Read32 0x1FFF8008 0x0F,
       Log Info ''Option Bytes are already correct'', OptionBytesLoad, Reset Run, Stop]"
  have effect: "\<forall>i < length (reference image_a) div 8.
        snd (fst (rounds_of ?es2 ! i)) =
          (case snd (rounds_of ?es1 ! i) of
             [] \<Rightarrow> snd (fst (rounds_of ?es1 ! i))
           | (reg, new_value) # ws \<Rightarrow> new_value)"
    by (auto simp: image_a_dwords dest!: less_2_cases)
  have covered: "\<forall>i < length (reference image_a) div 8.
        unpack_u32 (reference image_a) (i * 8) AND unpack_u32 (write_mask image_a) (i * 8)
          AND NOT (unpack_u32 (compare_mask image_a) (i * 8)) = 0"
    using image_a_dwords(2-7) by (auto simp: image_a_dwords(1) dest!: less_2_cases)
  from second_run_writes_nothing [OF run_a bench_load run_a' bench_load effect covered]
  show ?thesis
    by (simp add: run_a run_a' mem_a_def mem_a'_def)
qed

text \<open>
  Without the condition on the masks the second run may write again. The image
  \<open>image_b\<close> has a bit that is writable and set in the reference, but not compared: the
  first run sets it, the second run reads it back as set, masks it away when comparing,
  and writes it once more.
\<close>

theorem second_run_counterexample:
  "rounds_of (fst (option_bytes_set (bench image_b mem_b no_fault) ''ob.data'' []))
     = [((0x1FFF8000, 0), [(0x58004020, 1)])]
   \<and> snd (option_bytes_set (bench image_b mem_b no_fault) ''ob.data'' []) = Inr True
   \<and> mem_b' 0x1FFF8000 = 1
   \<and> rounds_of (fst (option_bytes_set (bench image_b mem_b' no_fault) ''ob.data'' []))
     = [((0x1FFF8000, 1), [(0x58004020, 1)])]
   \<and> snd (option_bytes_set (bench image_b mem_b' no_fault) ''ob.data'' []) = Inr True
   \<and> writes_of (fst (option_bytes_set (bench image_b mem_b' no_fault) ''ob.data'' []))
     = [(0x58004020, 1)]"
  by (simp add: run_b run_b' mem_b'_def)

section \<open>option\_bytes\_validate\<close>

lemma to_bytes_little_Inr:
  "to_bytes_little n v = Inr bs \<longleftrightarrow>
     0 \<le> v \<and> v < 2 ^ (8 * n) \<and> bs = map (\<lambda>k. word_of_int (v div 256 ^ k)) [0..<n]"
  by (auto simp: to_bytes_little_def)

lemma read_option_bytes_Inr:
  assumes "read_option_bytes E is ob_read h = (res, Inr out)"
  shows "map fst (reads_of res) = map (\<lambda>i. OPTION_BYTE_BASE E + int i * 4) is
           \<and> out = ob_read @ device_bytes res
           \<and> length out = length ob_read + 4 * length is
           \<and> (\<forall>e \<in> set res. is_read e)"
  using assms
proof (induction "is" arbitrary: ob_read h res)
  case Nil
  then show ?case by (simp add: io_return_iff device_bytes_def)
next
  case (Cons i "is")
  from Cons.prems obtain v bs res' where
    v: "v = read_32_value E h (OPTION_BYTE_BASE E + int i * 4)"
    and bs: "to_bytes_little 4 v = Inr bs"
    and rest: "read_option_bytes E is (ob_read @ bs) (h @ [Read32 (OPTION_BYTE_BASE E + int i * 4) v])
                 = (res', Inr out)"
    and res: "res = Read32 (OPTION_BYTE_BASE E + int i * 4) v # res'"
    by (auto simp: Let_def run_iffs)
  from bs have len: "length bs = 4"
    by (auto simp: to_bytes_little_Inr)
  from Cons.IH [OF rest] bs len show ?case
    by (auto simp: res device_bytes_def)
qed

lemma read_option_bytes_events:
  "read_option_bytes E is ob_read h = (res, r) \<Longrightarrow> \<forall>e \<in> set res. is_read e"
proof (induction "is" arbitrary: ob_read h res)
  case Nil
  then show ?case by (simp add: io_return_iff)
next
  case (Cons i "is")
  show ?case
  proof (cases r)
    case (Inr out)
    with Cons.prems read_option_bytes_Inr show ?thesis by blast
  next
    case (Inl err)
    with Cons.prems Cons.IH show ?thesis
      by (auto simp: Let_def run_iffs)
  qed
qed

lemma mask_option_bytes_events:
  "mask_option_bytes ob_read ob_compare_mask is ob_compare h = (es, r) \<Longrightarrow> es = []"
proof (induction "is" arbitrary: ob_compare h es)
  case Nil
  then show ?case by (simp add: io_return_iff)
next
  case (Cons i "is")
  then show ?case
    by (cases r) (auto simp: run_iffs)
qed

lemma mask_option_bytes_Inr:
  assumes "mask_option_bytes ob_read ob_compare_mask is ob_compare h = (es, Inr out)"
  shows "out = ob_compare @ map (\<lambda>i. ob_read ! i AND ob_compare_mask ! i) is
           \<and> (\<forall>i \<in> set is. i < length ob_read \<and> i < length ob_compare_mask)"
  using assms
proof (induction "is" arbitrary: ob_compare h es)
  case Nil
  then show ?case by (simp add: io_return_iff)
next
  case (Cons i "is")
  from Cons.prems obtain es' where
    i: "i < length ob_read" "i < length ob_compare_mask"
    and rest: "mask_option_bytes ob_read ob_compare_mask is
                 (ob_compare @ [ob_read ! i AND ob_compare_mask ! i]) h = (es', Inr out)"
    by (auto simp: run_iffs bytes_index_def split: if_splits)
  from Cons.IH [OF rest] i show ?case
    by simp
qed

lemma option_bytes_validate_Inr:
  assumes "option_bytes_validate E file_path h = (es, Inr rc)"
  obtains img res ob_read ob_compare logs where
    "load_option_bytes E file_path = Inr img"
    "read_option_bytes E [0..<length (reference img) div 4] [] (h @ [Start, Reset Init])
       = (res, Inr ob_read)"
    "mask_option_bytes ob_read (compare_mask img) [0..<length (reference img)] []
       (h @ [Start, Reset Init] @ res) = ([], Inr ob_compare)"
    "rc \<longleftrightarrow> reference img \<noteq> ob_compare"
    "es = [Start, Reset Init] @ res @ logs @ [Reset Run, Stop]"
    "\<forall>e \<in> set logs. is_log e"
proof -
  from assms obtain img res ob_read cs ob_compare logs where
    1: "load_option_bytes E file_path = Inr img"
    and 2: "read_option_bytes E [0..<length (reference img) div 4] [] (h @ [Start, Reset Init])
       = (res, Inr ob_read)"
    and 3: "mask_option_bytes ob_read (compare_mask img) [0..<length (reference img)] []
       (h @ [Start, Reset Init] @ res) = (cs, Inr ob_compare)"
    and 4: "rc \<longleftrightarrow> reference img \<noteq> ob_compare"
    and 5: "es = [Start, Reset Init] @ res @ cs @ logs @ [Reset Run, Stop]"
    and 6: "\<forall>e \<in> set logs. is_log e"
    unfolding option_bytes_validate_def
    by (auto simp: Let_def io_then_def run_iffs command_defs ob_print_diff_table_logger
        split: if_splits)
  from mask_option_bytes_events [OF 3] have "cs = []" .
  with 1 2 3 4 5 6 that show thesis by simp
qed

lemma reads_of_logs: "\<forall>e \<in> set logs. is_log e \<Longrightarrow> reads_of logs = []"
  by (induction logs rule: reads_of.induct) simp_all

lemma option_bytes_validate_compare:
  assumes run: "option_bytes_validate E file_path h = (es, Inr rc)"
    and load: "load_option_bytes E file_path = Inr img"
  shows "map fst (reads_of es) =
           map (\<lambda>j. OPTION_BYTE_BASE E + int j * 4) [0..<length (reference img) div 4]"
    and "length (device_bytes es) = length (reference img)"
    and "length (reference img) \<le> length (compare_mask img)"
    and "rc \<longleftrightarrow> reference img \<noteq>
           map (\<lambda>k. device_bytes es ! k AND compare_mask img ! k) [0..<length (reference img)]"
proof -
  from run obtain img' res ob_read ob_compare logs where
    load': "load_option_bytes E file_path = Inr img'"
    and rd: "read_option_bytes E [0..<length (reference img') div 4] [] (h @ [Start, Reset Init])
       = (res, Inr ob_read)"
    and mk: "mask_option_bytes ob_read (compare_mask img') [0..<length (reference img')] []
       (h @ [Start, Reset Init] @ res) = ([], Inr ob_compare)"
    and rc: "rc \<longleftrightarrow> reference img' \<noteq> ob_compare"
    and es: "es = [Start, Reset Init] @ res @ logs @ [Reset Run, Stop]"
    and logs: "\<forall>e \<in> set logs. is_log e"
    by (rule option_bytes_validate_Inr)
  from load load' have img: "img' = img" by simp
  let ?n = "length (reference img)"
  from read_option_bytes_Inr [OF rd] have
    addrs: "map fst (reads_of res) = map (\<lambda>j. OPTION_BYTE_BASE E + int j * 4) [0..<?n div 4]"
    and bytes: "ob_read = device_bytes res"
    and len: "length ob_read = 4 * (?n div 4)"
    unfolding img by auto
  from mask_option_bytes_Inr [OF mk] have
    cmp: "ob_compare = map (\<lambda>i. ob_read ! i AND compare_mask img ! i) [0..<?n]"
    and ix: "\<forall>i < ?n. i < length ob_read \<and> i < length (compare_mask img)"
    unfolding img by auto
  have r: "reads_of es = reads_of res"
    by (simp add: es reads_of_append reads_of_logs [OF logs])
  then have d: "device_bytes es = device_bytes res"
    by (simp add: device_bytes_def)
  show "map fst (reads_of es) = map (\<lambda>j. OPTION_BYTE_BASE E + int j * 4) [0..<?n div 4]"
    using addrs r by simp
  from ix have "?n \<le> length ob_read" "?n \<le> length (compare_mask img)"
    by (meson not_less order_refl)+
  moreover from len have "length ob_read \<le> ?n"
    by simp
  ultimately show "length (device_bytes es) = ?n" "?n \<le> length (compare_mask img)"
    using bytes d by simp_all
  show "rc \<longleftrightarrow> reference img \<noteq>
           map (\<lambda>k. device_bytes es ! k AND compare_mask img ! k) [0..<?n]"
    using rc cmp bytes d by (simp add: img)
qed

lemma differs_from_map_iff:
  "xs \<noteq> map f [0..<length xs] \<longleftrightarrow> (\<exists>k < length xs. f k \<noteq> xs ! k)"
proof -
  have "xs = map f [0..<length xs] \<longleftrightarrow> (\<forall>k < length xs. xs ! k = f k)"
    by (subst list_eq_iff_nth_eq) simp
  then show ?thesis
    by (simp only: not_all) (simp only: not_imp Bex_def [symmetric] conj_commute eq_commute)
qed

lemma to_bytes_little_4_inverse:
  assumes "to_bytes_little 4 v = Inr bs"
  shows "from_bytes_little bs = v"
proof -
  from assms have v: "0 \<le> v" "v < 2 ^ 32"
    and bs: "bs = [word_of_int v, word_of_int (v div 256), word_of_int (v div 65536),
                   word_of_int (v div 16777216)]"
    by (auto simp: to_bytes_little_def upt_rec split: if_splits)
  have u: "uint (word_of_int k :: byte) = k mod 256" for k
    by (simp add: uint_word_of_int)
  define d1 where "d1 = v div 256"
  define d2 where "d2 = d1 div 256"
  define d3 where "d3 = d2 div 256"
  have e2: "v div 65536 = d2"
    unfolding d2_def d1_def by (simp add: zdiv_zmult2_eq [symmetric])
  have e3: "v div 16777216 = d3"
    unfolding d3_def d2_def d1_def by (simp add: zdiv_zmult2_eq [symmetric])
  from v have "d3 < 256" "0 \<le> d3"
    unfolding e3 [symmetric] by simp_all
  then have m3: "d3 mod 256 = d3"
    by simp
  have "from_bytes_little bs =
      v mod 256 + 256 * (d1 mod 256 + 256 * (d2 mod 256 + 256 * (d3 mod 256)))"
    unfolding bs by (simp add: u e2 e3 d1_def)
  also have "d2 mod 256 + 256 * (d3 mod 256) = d2"
    using m3 by (simp add: d3_def)
  also have "d1 mod 256 + 256 * d2 = d1"
    unfolding d2_def by simp
  also have "v mod 256 + 256 * d1 = v"
    unfolding d1_def by simp
  finally show ?thesis .
qed

lemma concat_quads:
  "\<forall>x \<in> set xs. length (f x) = 4 \<Longrightarrow> j < length xs \<Longrightarrow>
     take 4 (drop (4 * j) (concat (map f xs))) = f (xs ! j)"
proof (induction xs arbitrary: j)
  case Nil
  then show ?case by simp
next
  case (Cons x xs)
  show ?case
  proof (cases j)
    case 0
    with Cons.prems show ?thesis by simp
  next
    case (Suc q)
    with Cons.prems have "take 4 (drop (4 * q) (concat (map f xs))) = f (xs ! q)"
      by (intro Cons.IH) auto
    with Suc Cons.prems show ?thesis by simp
  qed
qed

lemma read_option_bytes_range:
  assumes "read_option_bytes E is ob_read h = (res, Inr out)"
  shows "\<forall>p \<in> set (reads_of res). 0 \<le> snd p \<and> snd p < 2 ^ 32"
  using assms
proof (induction "is" arbitrary: ob_read h res)
  case Nil
  then show ?case by (simp add: io_return_iff)
next
  case (Cons i "is")
  from Cons.prems obtain v bs res' where
    bs: "to_bytes_little 4 v = Inr bs"
    and rest: "read_option_bytes E is (ob_read @ bs) (h @ [Read32 (OPTION_BYTE_BASE E + int i * 4) v])
                 = (res', Inr out)"
    and res: "res = Read32 (OPTION_BYTE_BASE E + int i * 4) v # res'"
    by (auto simp: Let_def run_iffs)
  from bs have "0 \<le> v" "v < 2 ^ 32"
    by (auto simp: to_bytes_little_Inr)
  with Cons.IH [OF rest] show ?case
    by (simp add: res)
qed

lemma option_bytes_validate_words:
  assumes run: "option_bytes_validate E file_path h = (es, Inr rc)"
    and j: "j < length (reads_of es)"
  shows "from_bytes_little (take 4 (drop (4 * j) (device_bytes es))) = snd (reads_of es ! j)"
proof -
  from run obtain img res ob_read ob_compare logs where
    "load_option_bytes E file_path = Inr img"
    and rd: "read_option_bytes E [0..<length (reference img) div 4] [] (h @ [Start, Reset Init])
       = (res, Inr ob_read)"
    and "mask_option_bytes ob_read (compare_mask img) [0..<length (reference img)] []
       (h @ [Start, Reset Init] @ res) = ([], Inr ob_compare)"
    and "rc \<longleftrightarrow> reference img \<noteq> ob_compare"
    and es: "es = [Start, Reset Init] @ res @ logs @ [Reset Run, Stop]"
    and logs: "\<forall>e \<in> set logs. is_log e"
    by (rule option_bytes_validate_Inr)
  have r: "reads_of es = reads_of res"
    by (simp add: es reads_of_append reads_of_logs [OF logs])
  let ?f = "\<lambda>(a, v). case to_bytes_little 4 v of Inr bs \<Rightarrow> bs | Inl err \<Rightarrow> []"
  from read_option_bytes_range [OF rd] r
  have ok: "\<forall>p \<in> set (reads_of es). to_bytes_little 4 (snd p)
      = Inr (map (\<lambda>k. word_of_int (snd p div 256 ^ k)) [0..<4])"
    by (auto simp: to_bytes_little_def)
  then have len: "\<forall>p \<in> set (reads_of es). length (?f p) = 4"
    by (auto simp: case_prod_unfold)
  from j have mem: "reads_of es ! j \<in> set (reads_of es)"
    by simp
  from concat_quads [OF len j]
  have "take 4 (drop (4 * j) (device_bytes es)) = ?f (reads_of es ! j)"
    by (simp add: device_bytes_def)
  moreover from ok mem have "to_bytes_little 4 (snd (reads_of es ! j)) = Inr (?f (reads_of es ! j))"
    by (auto simp: case_prod_unfold)
  ultimately show ?thesis
    using to_bytes_little_4_inverse by simp
qed

text \<open>
  C3. A run of \<open>option_bytes_validate\<close> that returns has read one 32-bit word at
  \<open>OPTION_BYTE_BASE + j * 4\<close> for each \<open>j\<close> below \<open>length / 4\<close>. The device bytes are
  the words read, in order, each as four bytes in little-endian order (the \<open>j\<close>-th group
  of four bytes has the \<open>j\<close>-th word as its little-endian value). The run returns true
  (a mismatch) exactly if for some byte index \<open>k\<close> below the length the device byte
  masked with the compare mask byte differs from the reference byte, taken as it is;
  it returns false when every byte matches.
\<close>

theorem validate_result:
  assumes "option_bytes_validate E file_path h = (es, Inr mismatch)"
    and "load_option_bytes E file_path = Inr img"
  shows "map fst (reads_of es) =
           map (\<lambda>j. OPTION_BYTE_BASE E + int j * 4) [0..<length (reference img) div 4] \<and>
         length (device_bytes es) = length (reference img) \<and>
         (\<forall>j < length (reference img) div 4.
            from_bytes_little (take 4 (drop (4 * j) (device_bytes es)))
              = snd (reads_of es ! j)) \<and>
         (mismatch \<longleftrightarrow>
            (\<exists>k < length (reference img).
               device_bytes es ! k AND compare_mask img ! k \<noteq> reference img ! k))"
proof -
  note c = option_bytes_validate_compare [OF assms]
  from c(1) have "length (reads_of es) = length (reference img) div 4"
    using length_map [of fst "reads_of es"] by simp
  with option_bytes_validate_words [OF assms(1)]
  have "\<forall>j < length (reference img) div 4.
            from_bytes_little (take 4 (drop (4 * j) (device_bytes es)))
              = snd (reads_of es ! j)"
    by simp
  with c differs_from_map_iff [of "reference img"
      "\<lambda>k. device_bytes es ! k AND compare_mask img ! k"]
  show ?thesis
    by simp
qed

lemma byte_outside_mask:
  fixes d m r :: byte
  assumes "r AND NOT m \<noteq> 0"
  shows "d AND m \<noteq> r"
proof
  assume eq: "d AND m = r"
  have "(d AND m) AND NOT m = 0"
    by (simp add: bit_eq_iff bit_simps)
  with eq assms show False by simp
qed

lemma read_option_bytes_returns:
  assumes nr: "\<forall>h e. raises E h e = None"
    and rng: "\<forall>h a. 0 \<le> read_32_value E h a \<and> read_32_value E h a < 2 ^ 32"
  shows "\<exists>res out. read_option_bytes E is ob_read h = (res, Inr out)"
proof (induction "is" arbitrary: ob_read h)
  case Nil
  show ?case by (simp add: io_return_def)
next
  case (Cons i "is")
  let ?a = "OPTION_BYTE_BASE E + int i * 4"
  let ?v = "read_32_value E h ?a"
  have rd: "openocd_read_32 E ?a h = ([Read32 ?a ?v], Inr ?v)"
    using nr by (simp add: openocd_read_32_Inr_iff)
  from rng have "0 \<le> ?v" and "?v < 2 ^ 32"
    by blast+
  then obtain bs where bs: "to_bytes_little 4 ?v = Inr bs"
    by (simp add: to_bytes_little_def)
  from Cons.IH [of "ob_read @ bs" "h @ [Read32 ?a ?v]"] obtain res out where
    "read_option_bytes E is (ob_read @ bs) (h @ [Read32 ?a ?v]) = (res, Inr out)"
    by blast
  with rd bs show ?case
    by (simp add: Let_def io_bind_def io_lift_def)
qed

lemma mask_option_bytes_returns:
  assumes "\<forall>i \<in> set is. i < length ob_read \<and> i < length ob_compare_mask"
  shows "\<exists>out. mask_option_bytes ob_read ob_compare_mask is ob_compare h = ([], Inr out)"
  using assms
  by (induction "is" arbitrary: ob_compare) (simp_all add: io_return_def io_bind_def io_lift_def bytes_index_def)

lemma option_bytes_validate_returns:
  assumes nr: "\<forall>h e. raises E h e = None"
    and rng: "\<forall>h a. 0 \<le> read_32_value E h a \<and> read_32_value E h a < 2 ^ 32"
    and load: "load_option_bytes E file_path = Inr img"
    and len: "length (reference img) \<le> length (compare_mask img)"
    and dvd: "4 dvd length (reference img)"
  shows "\<exists>es rc. option_bytes_validate E file_path h = (es, Inr rc)"
proof -
  let ?n = "length (reference img)"
  from read_option_bytes_returns [OF nr rng] obtain res ob_read where
    rd: "read_option_bytes E [0..<?n div 4] [] (h @ [Start, Reset Init]) = (res, Inr ob_read)"
    by blast
  from read_option_bytes_Inr [OF rd] dvd have "length ob_read = ?n"
    by auto
  with len have "\<forall>i \<in> set [0..<?n]. i < length ob_read \<and> i < length (compare_mask img)"
    by simp
  from mask_option_bytes_returns [OF this] obtain ob_compare where
    mk: "mask_option_bytes ob_read (compare_mask img) [0..<?n] []
           (h @ [Start, Reset Init] @ res) = ([], Inr ob_compare)"
    by blast
  have cmd: "interact E e h' = ([e], Inr ())" for e h'
    using nr by (simp add: interact_def)
  show ?thesis
    unfolding option_bytes_validate_def
    using rd mk
    by (auto simp: io_then_def io_bind_def command_defs cmd io_lift_def load Let_def
        ob_print_diff_table_logger logger_def io_return_def)
qed

text \<open>
  C10. If some byte of the reference has a bit set outside the compare mask byte at the
  same index, then \<open>option_bytes_validate\<close> never returns false, whatever the device
  answers: every run that returns, returns true. And it does return (true) when nothing
  raises: no interaction fails, every word read has 32 bits, the compare mask is as long
  as the reference and the length is a multiple of four.
\<close>

theorem reference_outside_mask:
  assumes load: "load_option_bytes E file_path = Inr img"
    and k: "k < length (reference img)"
    and outside: "reference img ! k AND NOT (compare_mask img ! k) \<noteq> 0"
  shows "(\<forall>es mismatch. option_bytes_validate E file_path h = (es, Inr mismatch) \<longrightarrow> mismatch) \<and>
         ((\<forall>h e. raises E h e = None) \<and>
          (\<forall>h a. 0 \<le> read_32_value E h a \<and> read_32_value E h a < 2 ^ 32) \<and>
          length (reference img) \<le> length (compare_mask img) \<and>
          4 dvd length (reference img) \<longrightarrow>
            (\<exists>es. option_bytes_validate E file_path h = (es, Inr True)))"
proof -
  have always: "mismatch" if run: "option_bytes_validate E file_path h = (es, Inr mismatch)"
    for es mismatch
  proof -
    from byte_outside_mask [OF outside] k
    have "\<exists>k < length (reference img).
            device_bytes es ! k AND compare_mask img ! k \<noteq> reference img ! k"
      by blast
    with option_bytes_validate_compare(4) [OF run load]
      differs_from_map_iff [of "reference img"
        "\<lambda>k. device_bytes es ! k AND compare_mask img ! k"]
    show ?thesis by simp
  qed
  moreover have "\<exists>es. option_bytes_validate E file_path h = (es, Inr True)"
    if "(\<forall>h e. raises E h e = None) \<and>
          (\<forall>h a. 0 \<le> read_32_value E h a \<and> read_32_value E h a < 2 ^ 32) \<and>
          length (reference img) \<le> length (compare_mask img) \<and>
          4 dvd length (reference img)"
  proof -
    from that option_bytes_validate_returns [OF _ _ load, of h] obtain es rc where
      run: "option_bytes_validate E file_path h = (es, Inr rc)"
      by blast
    with always [OF run] show ?thesis by auto
  qed
  ultimately show ?thesis by blast
qed

lemmas validate_defs =
  option_bytes_validate_def to_bytes_little_def bytes_index_def ob_print_diff_table_logger

lemma validate_a':
  "option_bytes_validate (bench image_a mem_a' no_fault) ''ob.data'' [] =
     ([Start, Reset Init, Read32 0x1FFF8000 0xAA, Read32 0x1FFF8004 0, Read32 0x1FFF8008 0x0F,
       Read32 0x1FFF800C 0, Log Info ''Option Bytes are valid'', Reset Run, Stop],
      Inr False)"
  by (simp add: validate_defs run_defs image_a_def mem_a'_def)

lemma validate_a:
  "option_bytes_validate (bench image_a mem_a no_fault) ''ob.data'' [] =
     ([Start, Reset Init, Read32 0x1FFF8000 0x5A, Read32 0x1FFF8004 0, Read32 0x1FFF8008 0x0F,
       Read32 0x1FFF800C 0, Log Error ''Option Bytes are invalid'', Log Error diff_header,
       Log Error (diff_line (reference image_a)
         [0x50, 0, 0, 0, 0, 0, 0, 0, 0x0F, 0, 0, 0, 0, 0, 0, 0] 0),
       Log Error (diff_line (reference image_a)
         [0x50, 0, 0, 0, 0, 0, 0, 0, 0x0F, 0, 0, 0, 0, 0, 0, 0] 8),
       Reset Run, Stop],
      Inr True)"
  by (simp add: validate_defs run_defs image_a_def mem_a_def range_step_def)


theorem validate_result_witness:
  "option_bytes_validate (bench image_a mem_a' no_fault) ''ob.data'' [] =
     ([Start, Reset Init, Read32 0x1FFF8000 0xAA, Read32 0x1FFF8004 0, Read32 0x1FFF8008 0x0F,
       Read32 0x1FFF800C 0, Log Info ''Option Bytes are valid'', Reset Run, Stop],
      Inr False)
   \<and> snd (option_bytes_validate (bench image_a mem_a no_fault) ''ob.data'' []) = Inr True
   \<and> device_bytes (fst (option_bytes_validate (bench image_a mem_a no_fault) ''ob.data'' []))
       = [0x5A, 0, 0, 0, 0, 0, 0, 0, 0x0F, 0, 0, 0, 0, 0, 0, 0]
   \<and> (0x5A :: byte) AND compare_mask image_a ! 0 = 0x50
   \<and> reference image_a ! 0 = 0xA0"
proof -
  have d: "device_bytes
      [Start, Reset Init, Read32 0x1FFF8000 0x5A, Read32 0x1FFF8004 0, Read32 0x1FFF8008 0x0F,
       Read32 0x1FFF800C 0, Log Error ''Option Bytes are invalid'', Log Error diff_header,
       Log Error (diff_line (reference image_a)
         [0x50, 0, 0, 0, 0, 0, 0, 0, 0x0F, 0, 0, 0, 0, 0, 0, 0] 0),
       Log Error (diff_line (reference image_a)
         [0x50, 0, 0, 0, 0, 0, 0, 0, 0x0F, 0, 0, 0, 0, 0, 0, 0] 8),
       Reset Run, Stop]
     = [0x5A, 0, 0, 0, 0, 0, 0, 0, 0x0F, 0, 0, 0, 0, 0, 0, 0]"
    by (simp add: device_bytes_def to_bytes_little_def upt_rec)
  have m: "(0x5A :: byte) AND compare_mask image_a ! 0 = 0x50" "reference image_a ! 0 = 0xA0"
    by (simp_all add: image_a_def)
  from validate_result [OF validate_a' bench_load] validate_result [OF validate_a bench_load]
    d m
  show ?thesis
    by (simp add: validate_a validate_a')
qed

lemma image_b_outside:
  "0 < length (reference image_b)"
  "reference image_b ! 0 AND NOT (compare_mask image_b ! 0) \<noteq> 0"
  by (simp_all add: image_b_def)

theorem reference_outside_mask_witness:
  "reference image_b ! 0 AND NOT (compare_mask image_b ! 0) = 1
   \<and> snd (option_bytes_validate (bench image_b mem_b no_fault) ''ob.data'' []) = Inr True
   \<and> snd (option_bytes_validate (bench image_b mem_b' no_fault) ''ob.data'' []) = Inr True"
proof -
  have quiet: "\<forall>h e. raises (bench image_b mem no_fault) h e = None" for mem
    by (simp add: bench_simps no_fault_def)
  have rng: "\<forall>h a. 0 \<le> read_32_value (bench image_b mem_b rs) h a
               \<and> read_32_value (bench image_b mem_b rs) h a < 2 ^ 32"
    "\<forall>h a. 0 \<le> read_32_value (bench image_b mem_b' rs) h a
               \<and> read_32_value (bench image_b mem_b' rs) h a < 2 ^ 32" for rs
    by (simp_all add: bench_simps mem_b_def mem_b'_def)
  have "length (reference image_b) = 8" "length (compare_mask image_b) = 8"
    by (simp_all add: image_b_def)
  then have len: "length (reference image_b) \<le> length (compare_mask image_b)"
    "4 dvd length (reference image_b)"
    by simp_all
  from reference_outside_mask [OF bench_load image_b_outside, THEN conjunct2, rule_format,
      of mem_b no_fault "[]"] quiet rng len
  obtain es where "option_bytes_validate (bench image_b mem_b no_fault) ''ob.data'' [] = (es, Inr True)"
    by blast
  moreover
  from reference_outside_mask [OF bench_load image_b_outside, THEN conjunct2, rule_format,
      of mem_b' no_fault "[]"] quiet rng len
  obtain es' where "option_bytes_validate (bench image_b mem_b' no_fault) ''ob.data'' [] = (es', Inr True)"
    by blast
  ultimately show ?thesis
    by (simp add: image_b_def)
qed

section \<open>The probe session\<close>

text \<open>
  C7. On a missing file, \<open>flash\<close> raises before anything is done to the probe. But
  \<open>option_bytes_validate\<close> and \<open>option_bytes_set\<close> load the declaration file only after
  they have started the session and reset the device to halt: on a missing file they
  raise with the session started.
\<close>

theorem missing_file_session:
  "flash (bench image_a mem_a no_fault) 0x08000000 ''missing.bin'' True []
     = ([], Inl (Exception ''File missing.bin not found''))
   \<and> option_bytes_validate (bench image_a mem_a no_fault) ''missing.data'' []
     = ([Start, Reset Init], Inl (External ''No such file''))
   \<and> option_bytes_set (bench image_a mem_a no_fault) ''missing.data'' []
     = ([Log Info ''Setting Option Bytes'', Start, Reset Init],
        Inl (External ''No such file''))"
  by (simp add: flash_def option_bytes_validate_def option_bytes_set_def run_defs)

lemma patch_event_not_Stop: "\<forall>e \<in> set es. is_patch_event e \<Longrightarrow> Stop \<notin> set es"
  by auto

lemma read_not_Stop: "\<forall>e \<in> set es. is_read e \<Longrightarrow> Stop \<notin> set es"
  by auto

lemma log_not_Stop: "\<forall>e \<in> set es. is_log e \<Longrightarrow> (Stop \<in> set es) = False"
  by auto

lemma option_bytes_set_stop:
  assumes "option_bytes_set E file_path h = (es, r)"
  shows "case r of Inr x \<Rightarrow> es \<noteq> [] \<and> last es = Stop \<and> Stop \<notin> set (butlast es)
         | Inl e \<Rightarrow> Stop \<notin> set es"
proof (cases r)
  case (Inr x)
  with assms show ?thesis
    by (auto elim!: option_bytes_set_Inr dest!: patch_loop_events patch_event_not_Stop
        simp: butlast_append split: if_splits)
next
  case (Inl err)
  with assms show ?thesis
    unfolding option_bytes_set_def
    by (auto simp: Let_def io_then_def run_iffs command_defs split: if_splits
        dest!: patch_loop_events patch_event_not_Stop)
qed

lemma option_bytes_validate_stop:
  assumes "option_bytes_validate E file_path h = (es, r)"
  shows "case r of Inr x \<Rightarrow> es \<noteq> [] \<and> last es = Stop \<and> Stop \<notin> set (butlast es)
         | Inl e \<Rightarrow> Stop \<notin> set es"
proof (cases r)
  case (Inr x)
  with assms show ?thesis
    by (auto elim!: option_bytes_validate_Inr dest!: read_option_bytes_events read_not_Stop
        simp: butlast_append log_not_Stop)
next
  case (Inl err)
  with assms show ?thesis
    unfolding option_bytes_validate_def
    by (auto simp: Let_def io_then_def run_iffs command_defs ob_print_diff_table_logger
        split: if_splits
        dest!: read_option_bytes_events read_not_Stop mask_option_bytes_events)
qed

lemma otp_write_stop:
  assumes "otp_write E address data h = (es, r)"
  shows "case r of Inr x \<Rightarrow> es \<noteq> [] \<and> last es = Stop \<and> Stop \<notin> set (butlast es)
         | Inl e \<Rightarrow> Stop \<notin> set es"
  using assms unfolding otp_write_def log_mdw_def reset_def
  by (cases r) (auto simp: Let_def io_then_def run_iffs command_defs butlast_append)

text \<open>
  C8. For \<open>option_bytes_validate\<close>, \<open>option_bytes_set\<close> and \<open>otp_write\<close>: a run that
  returns ends with the stop of the session, issued once; a run that raises has not
  stopped the session, because nothing in the operations catches the exception.
\<close>

theorem stop_when_returning:
  "(option_bytes_validate E file_path h = (es, r) \<longrightarrow>
      (case r of Inr x \<Rightarrow> es \<noteq> [] \<and> last es = Stop \<and> Stop \<notin> set (butlast es)
       | Inl e \<Rightarrow> Stop \<notin> set es)) \<and>
   (option_bytes_set E file_path h = (es, r) \<longrightarrow>
      (case r of Inr x \<Rightarrow> es \<noteq> [] \<and> last es = Stop \<and> Stop \<notin> set (butlast es)
       | Inl e \<Rightarrow> Stop \<notin> set es)) \<and>
   (otp_write E address data h = (es, r) \<longrightarrow>
      (case r of Inr x \<Rightarrow> es \<noteq> [] \<and> last es = Stop \<and> Stop \<notin> set (butlast es)
       | Inl e \<Rightarrow> Stop \<notin> set es))"
  using option_bytes_validate_stop option_bytes_set_stop otp_write_stop by blast

lemma otp_write_bench:
  "otp_write (bench image_a mem_a no_fault) 0x1FFF7000 [] [] =
     ([Start, Reset Init, ClearFlashErrors, SendTcl ''mdw 536834048 2'' [], Log Info [],
       SendTcl ''mdw 536834056 2'' [], Log Info [],
       WriteFlash 0x1FFF7000 0x12345678 0x9ABCDEF1,
       WriteFlash 0x1FFF7008 0x9ABCDEF1 0x12345678,
       SendTcl ''mdw 536834048 2'' [], Log Info [],
       SendTcl ''mdw 536834056 2'' [], Log Info [], Reset Run, Stop],
      Inr True)"
  by (simp add: otp_write_def log_mdw_def reset_def strip_def run_defs)

lemma validate_read_fault:
  "option_bytes_validate (bench image_a mem_a read_fault) ''ob.data'' [] =
     ([Start, Reset Init], Inl (External ''probe read failed''))"
  by (simp add: validate_defs run_defs image_a_def mem_a_def)

lemma set_read_fault:
  "option_bytes_set (bench image_a mem_a read_fault) ''ob.data'' [] =
     ([Log Info ''Setting Option Bytes'', Start, Reset Init, ClearFlashErrors, FlashUnlock,
       OptionBytesUnlock],
      Inl (External ''probe read failed''))"
  by (simp add: option_bytes_set_def patch_dword_def run_defs image_a_def mem_a_def)

lemma otp_write_fault:
  "otp_write (bench image_a mem_a flash_write_fault) 0x1FFF7000 [] [] =
     ([Start, Reset Init, ClearFlashErrors, SendTcl ''mdw 536834048 2'' [], Log Info [],
       SendTcl ''mdw 536834056 2'' [], Log Info []],
      Inl (External ''flash write failed''))"
  by (simp add: otp_write_def log_mdw_def reset_def strip_def run_defs)

theorem stop_when_returning_witness:
  "option_bytes_validate (bench image_a mem_a' no_fault) ''ob.data'' [] =
     ([Start, Reset Init, Read32 0x1FFF8000 0xAA, Read32 0x1FFF8004 0, Read32 0x1FFF8008 0x0F,
       Read32 0x1FFF800C 0, Log Info ''Option Bytes are valid'', Reset Run, Stop],
      Inr False)
   \<and> last (fst (option_bytes_set (bench image_a mem_a no_fault) ''ob.data'' [])) = Stop
   \<and> last (fst (otp_write (bench image_a mem_a no_fault) 0x1FFF7000 [] [])) = Stop
   \<and> Stop \<notin> set (fst (option_bytes_validate (bench image_a mem_a read_fault) ''ob.data'' []))"
  using stop_when_returning [of "bench image_a mem_a' no_fault" "''ob.data''" "[]" _ _ 0 "[]",
      THEN conjunct1, rule_format, OF validate_a']
    stop_when_returning [of "bench image_a mem_a no_fault" "''ob.data''" "[]" _ _ 0 "[]",
      THEN conjunct2, THEN conjunct1, rule_format, OF run_a]
    stop_when_returning [of "bench image_a mem_a no_fault" "''ob.data''" "[]" _ _ "0x1FFF7000" "[]",
      THEN conjunct2, THEN conjunct2, rule_format, OF otp_write_bench]
    stop_when_returning [of "bench image_a mem_a read_fault" "''ob.data''" "[]" _ _ 0 "[]",
      THEN conjunct1, rule_format, OF validate_read_fault]
  by (simp add: validate_a' run_a otp_write_bench validate_read_fault)

text \<open>
  Runs in which a step raises after the session was started: a failing read in
  \<open>option_bytes_validate\<close> and in \<open>option_bytes_set\<close>, a failing flash write in
  \<open>otp_write\<close>. None of them stops the session.
\<close>

theorem stop_counterexample:
  "option_bytes_validate (bench image_a mem_a read_fault) ''ob.data'' [] =
     ([Start, Reset Init], Inl (External ''probe read failed''))
   \<and> option_bytes_set (bench image_a mem_a read_fault) ''ob.data'' [] =
     ([Log Info ''Setting Option Bytes'', Start, Reset Init, ClearFlashErrors, FlashUnlock,
       OptionBytesUnlock],
      Inl (External ''probe read failed''))
   \<and> otp_write (bench image_a mem_a flash_write_fault) 0x1FFF7000 [] [] =
     ([Start, Reset Init, ClearFlashErrors, SendTcl ''mdw 536834048 2'' [], Log Info [],
       SendTcl ''mdw 536834056 2'' [], Log Info []],
      Inl (External ''flash write failed''))"
  by (simp add: validate_read_fault set_read_fault otp_write_fault)

end
